theory Spec2Isabelle
  imports Main
begin

section \<open>JavaScript strings\<close>

text \<open>
  A JavaScript string is a sequence of UTF-16 code units. The text that
  \<^verbatim>\<open>readFileSync(path, 'utf-8')\<close> returns and every string constant of the program is
  modelled as the list of its code units, so that \<^verbatim>\<open>includes\<close>, \<^verbatim>\<open>indexOf\<close>,
  \<^verbatim>\<open>slice\<close> and the regular expressions (which carry no \<^verbatim>\<open>u\<close> flag) see exactly the
  units the program sees. ASCII literals are written with \<open>asc\<close>; the Chinese
  messages of the program are given by their code units.
\<close>

type_synonym jsstring = "nat list"

definition asc :: "string \<Rightarrow> jsstring" where
  "asc = map of_char"

fun startsWith :: "jsstring \<Rightarrow> jsstring \<Rightarrow> bool" where
  "startsWith s [] = True"
| "startsWith [] (p # ps) = False"
| "startsWith (x # xs) (p # ps) = (x = p \<and> startsWith xs ps)"

text \<open>\<^verbatim>\<open>s.includes(p)\<close>: does \<open>p\<close> occur in \<open>s\<close> at some index.\<close>

fun includes_js :: "jsstring \<Rightarrow> jsstring \<Rightarrow> bool" where
  "includes_js [] p = (p = [])"
| "includes_js (x # xs) p = (startsWith (x # xs) p \<or> includes_js xs p)"

text \<open>The least and the greatest index at which \<open>p\<close> occurs in \<open>s\<close>.\<close>

fun findFirst :: "jsstring \<Rightarrow> jsstring \<Rightarrow> nat option" where
  "findFirst [] p = (if p = [] then Some 0 else None)"
| "findFirst (x # xs) p =
     (if startsWith (x # xs) p then Some 0 else map_option Suc (findFirst xs p))"

fun findLast :: "jsstring \<Rightarrow> jsstring \<Rightarrow> nat option" where
  "findLast [] p = (if p = [] then Some 0 else None)"
| "findLast (x # xs) p =
     (case findLast xs p of
        Some i \<Rightarrow> Some (Suc i)
      | None \<Rightarrow> if startsWith (x # xs) p then Some 0 else None)"

text \<open>
  \<^verbatim>\<open>s.indexOf(p, from)\<close>: the start index is clamped into \<open>0 .. length s\<close> (a negative
  \<open>from\<close> searches from index 0); the result is \<open>-1\<close> when there is no occurrence.
  \<^verbatim>\<open>s.lastIndexOf(p)\<close> likewise returns \<open>-1\<close> when \<open>p\<close> does not occur.
\<close>

definition indexOf :: "jsstring \<Rightarrow> jsstring \<Rightarrow> int \<Rightarrow> int" where
  "indexOf s p from =
     (let k = (if from < 0 then 0 else min (nat from) (length s))
      in case findFirst (drop k s) p of None \<Rightarrow> - 1 | Some i \<Rightarrow> int (k + i))"

definition lastIndexOf :: "jsstring \<Rightarrow> jsstring \<Rightarrow> int" where
  "lastIndexOf s p = (case findLast s p of None \<Rightarrow> - 1 | Some i \<Rightarrow> int i)"

text \<open>
  \<^verbatim>\<open>s.slice(b, e)\<close> and \<^verbatim>\<open>s.slice(b)\<close>: a negative index counts from the end, and
  both indices are clamped into \<open>0 .. length s\<close>.
\<close>

definition relIndex :: "jsstring \<Rightarrow> int \<Rightarrow> nat" where
  "relIndex s k =
     (if k < 0 then nat (max (int (length s) + k) 0) else min (nat k) (length s))"

definition slice :: "jsstring \<Rightarrow> int \<Rightarrow> int \<Rightarrow> jsstring" where
  "slice s b e = take (relIndex s e - relIndex s b) (drop (relIndex s b) s)"

definition sliceFrom :: "jsstring \<Rightarrow> int \<Rightarrow> jsstring" where
  "sliceFrom s b = drop (relIndex s b) s"

section \<open>Regular expressions\<close>

text \<open>
  The regular expressions of the program are built from literal characters, the
  classes \<^verbatim>\<open>\s\<close>, \<^verbatim>\<open>[^c]\<close> and \<^verbatim>\<open>['"]\<close>, the greedy quantifiers \<^verbatim>\<open>*\<close> and \<^verbatim>\<open>+\<close> on a
  single class, one greedy optional group \<^verbatim>\<open>(?:...)?\<close> and concatenation. None
  carries a flag.
\<close>

datatype cclass = AnyOf jsstring | NoneOf jsstring | WhiteSpace

datatype rx = Eps | Atom cclass | Rep cclass | Rep1 cclass | Opt rx | Cat rx rx

text \<open>
  \<^verbatim>\<open>\s\<close> matches the ECMAScript white space and line terminator code units:
  TAB, LF, VT, FF, CR, SP, U+00A0, U+1680, U+2000 to U+200A, U+2028, U+2029,
  U+202F, U+205F, U+3000 and U+FEFF.
\<close>

definition isWhiteSpace :: "nat \<Rightarrow> bool" where
  "isWhiteSpace c =
     (c \<in> set [9, 10, 11, 12, 13, 32, 160, 5760, 8232, 8233, 8239, 8287, 12288, 65279]
      \<or> (8192 \<le> c \<and> c \<le> 8202))"

fun inClass :: "cclass \<Rightarrow> nat \<Rightarrow> bool" where
  "inClass (AnyOf cs) c = (c \<in> set cs)"
| "inClass (NoneOf cs) c = (c \<notin> set cs)"
| "inClass WhiteSpace c = isWhiteSpace c"

text \<open>
  The backtracking matcher. \<open>rests r s\<close> lists, in the order in which a
  backtracking engine tries them, the remainders of \<open>s\<close> after each way of
  matching \<open>r\<close> at the start of \<open>s\<close>: a greedy quantifier tries the longest run
  first, a greedy optional group tries the group before skipping it. The head of
  the list is the match the engine reports.
\<close>

fun star :: "cclass \<Rightarrow> jsstring \<Rightarrow> jsstring list" where
  "star c [] = [[]]"
| "star c (x # xs) = (if inClass c x then star c xs @ [x # xs] else [x # xs])"

fun rests :: "rx \<Rightarrow> jsstring \<Rightarrow> jsstring list" where
  "rests Eps s = [s]"
| "rests (Atom c) s = (case s of [] \<Rightarrow> [] | x # xs \<Rightarrow> if inClass c x then [xs] else [])"
| "rests (Rep c) s = star c s"
| "rests (Rep1 c) s = (case s of [] \<Rightarrow> [] | x # xs \<Rightarrow> if inClass c x then star c xs else [])"
| "rests (Opt r) s = rests r s @ [s]"
| "rests (Cat a b) s = concat (map (rests b) (rests a s))"

text \<open>
  \<open>exec r s\<close> is the first match of \<open>r\<close> in \<open>s\<close>, scanning start positions from
  index 0: the text before the match, the matched text and the text after it.
\<close>

fun exec :: "rx \<Rightarrow> jsstring \<Rightarrow> (jsstring \<times> jsstring \<times> jsstring) option" where
  "exec r [] = (case rests r [] of t # _ \<Rightarrow> Some ([], [], []) | [] \<Rightarrow> None)"
| "exec r (x # xs) =
     (case rests r (x # xs) of
        t # _ \<Rightarrow> Some ([], take (length (x # xs) - length t) (x # xs), t)
      | [] \<Rightarrow> map_option (\<lambda>(b, m, a). (x # b, m, a)) (exec r xs))"

text \<open>\<^verbatim>\<open>r.test(s)\<close> and \<^verbatim>\<open>s.replace(r, f)\<close> with a replacer function, for a
  regular expression without the \<^verbatim>\<open>g\<close> flag: only the first match is replaced.\<close>

definition test :: "rx \<Rightarrow> jsstring \<Rightarrow> bool" where
  "test r s = (exec r s \<noteq> None)"

definition replace :: "jsstring \<Rightarrow> rx \<Rightarrow> (jsstring \<Rightarrow> jsstring) \<Rightarrow> jsstring" where
  "replace s r f = (case exec r s of None \<Rightarrow> s | Some (b, m, a) \<Rightarrow> b @ f m @ a)"

text \<open>A literal string and a sequence of regular expressions.\<close>

definition lit :: "string \<Rightarrow> rx" where
  "lit w = foldr (\<lambda>c r. Cat (Atom (AnyOf [of_char c])) r) w Eps"

definition seq :: "rx list \<Rightarrow> rx" where
  "seq rs = foldr Cat rs Eps"

definition ws :: rx where
  "ws = Rep WhiteSpace"

definition quote :: rx where
  \<open>quote = Atom (AnyOf (asc (CHR 0x27 # ''"'')))\<close>

text \<open>
  The words a regular expression can match, independent of the order of trial.
  This is the specification of \<open>rests\<close>, used in the proofs only.
\<close>

fun lang :: "rx \<Rightarrow> jsstring set" where
  "lang Eps = {[]}"
| "lang (Atom c) = {[x] | x. inClass c x}"
| "lang (Rep c) = {w. \<forall>x \<in> set w. inClass c x}"
| "lang (Rep1 c) = {w. w \<noteq> [] \<and> (\<forall>x \<in> set w. inClass c x)}"
| "lang (Opt r) = insert [] (lang r)"
| "lang (Cat a b) = {u @ v | u v. u \<in> lang a \<and> v \<in> lang b}"

section \<open>The patch engine: text steps (src/core/patcher.ts)\<close>

datatype FixerError =
    OPENCLAW_NOT_FOUND | FILE_NOT_FOUND | ALREADY_FIXED | NOT_FIXED
  | PERMISSION_DENIED | PATCH_FAILED | SERVICE_ERROR | BACKUP_NOT_FOUND

text \<open>
  A thrown value: a \<^verbatim>\<open>FixerException(code, message)\<close> of the program, or an error
  of the runtime's file system functions with its message.
\<close>

datatype jserror = FixerException FixerError jsstring | SystemError jsstring

fun errorMessage :: "jserror \<Rightarrow> jsstring" where
  "errorMessage (FixerException c m) = m"
| "errorMessage (SystemError m) = m"

definition MEDIA_IMPORT :: jsstring where
  \<open>MEDIA_IMPORT = asc ''import { sendMediaFeishu } from "./media.js";''\<close>

text \<open>
  The template literal \<^verbatim>\<open>MEDIA_LOGIC\<close> with its escapes resolved. Its first line is
  a comment in Chinese ("send the media (images/files) first - added by
  openclaw-feishu-media-fixer"), given by its code units.
\<close>

definition MEDIA_LOGIC :: jsstring where
  \<open>MEDIA_LOGIC =
     asc ''\<newline>  // '' @ [20808, 21457, 36865, 23186, 20307, 65288, 22270, 29255] @ asc ''/''
     @ [25991, 20214, 65289] @ asc ''- '' @ [30001] @ asc '' openclaw-feishu-media-fixer ''
     @ [28155, 21152]
     @ asc ''\<newline>  if (payload.mediaUrls?.length) {''
     @ asc ''\<newline>    for (const mediaUrl of payload.mediaUrls) {''
     @ asc ''\<newline>      try {''
     @ asc ''\<newline>        await sendMediaFeishu({''
     @ asc ''\<newline>          cfg,''
     @ asc ''\<newline>          to: chatId,''
     @ asc ''\<newline>          mediaUrl,''
     @ asc ''\<newline>          replyToMessageId,''
     @ asc ''\<newline>          accountId,''
     @ asc ''\<newline>        });''
     @ asc ''\<newline>        params.runtime.log?.(`feishu[${account.accountId}]: sent media: ${mediaUrl}`);''
     @ asc ''\<newline>      } catch (error) {''
     @ asc ''\<newline>        params.runtime.error?.(''
     @ asc ''\<newline>          `feishu[${account.accountId}]: failed to send media ${mediaUrl}: ${String(error)}`,''
     @ asc ''\<newline>        );''
     @ asc ''\<newline>      }''
     @ asc ''\<newline>    }''
     @ asc ''\<newline>  }''
     @ asc ''\<newline>''\<close>

text \<open>\<^verbatim>\<open>/import\s*\{[^}]*sendMarkdownCardFeishu[^}]*\}\s*from\s*['"]\.\/send\.js['"]/\<close>\<close>

definition importAnchor :: rx where
  \<open>importAnchor =
     seq [lit ''import'', ws, lit ''{'', Rep (NoneOf (asc ''}'')),
          lit ''sendMarkdownCardFeishu'', Rep (NoneOf (asc ''}'')), lit ''}'', ws,
          lit ''from'', ws, quote, lit ''./send.js'', quote]\<close>

text \<open>\<^verbatim>\<open>/deliver:\s*async\s*\(\s*payload\s*:\s*ReplyPayload/\<close>\<close>

definition deliverAnchor :: rx where
  \<open>deliverAnchor =
     seq [lit ''deliver:'', ws, lit ''async'', ws, lit ''('', ws, lit ''payload'', ws,
          lit '':'', ws, lit ''ReplyPayload'']\<close>

text \<open>\<^verbatim>\<open>/deliver:\s*async\s*\([^)]*\)\s*(?::\s*[^=]+)?\s*=>\s*\{/\<close>\<close>

definition fullPattern :: rx where
  \<open>fullPattern =
     seq [lit ''deliver:'', ws, lit ''async'', ws, lit ''('', Rep (NoneOf (asc '')'')),
          lit '')'', ws, Opt (seq [lit '':'', ws, Rep1 (NoneOf (asc ''=''))]), ws,
          lit ''=>'', ws, lit ''{'']\<close>

text \<open>Messages of the three exceptions of the insertion steps and of the
  verification: "cannot find a suitable place to add the import statement",
  "cannot parse the structure of the deliver function", "cannot find the
  definition of the deliver function", "patch verification failed, the repaired
  code does not contain the expected content".\<close>

definition msg_no_import_place :: jsstring where
  "msg_no_import_place =
     [26080, 27861, 25214, 21040, 21512, 36866, 30340, 20301, 32622, 28155, 21152]
     @ asc '' import '' @ [35821, 21477]"

definition msg_deliver_unparsed :: jsstring where
  "msg_deliver_unparsed =
     [26080, 27861, 35299, 26512] @ asc '' deliver '' @ [20989, 25968, 32467, 26500]"

definition msg_deliver_missing :: jsstring where
  "msg_deliver_missing =
     [26080, 27861, 25214, 21040] @ asc '' deliver '' @ [20989, 25968, 23450, 20041]"

definition msg_verify_failed :: jsstring where
  "msg_verify_failed =
     [34917, 19969, 39564, 35777, 22833, 36133, 65292, 20462, 22797, 21518, 30340, 20195,
      30721, 19981, 21253, 21547, 39044, 26399, 30340, 20869, 23481]"

text \<open>\<^verbatim>\<open>Patcher.addImport\<close>: \<open>Inl\<close> is the exception thrown.\<close>

definition addImport :: "jsstring \<Rightarrow> jserror + jsstring" where
  "addImport content =
     (if includes_js content (asc ''sendMediaFeishu'') \<and> includes_js content (asc ''./media.js'')
      then Inr content
      else if test importAnchor content
      then Inr (replace content importAnchor (\<lambda>m. m @ asc ''\<newline>'' @ MEDIA_IMPORT))
      else
        let lastImportIndex = lastIndexOf content (asc ''import '');
            nextNewlineIndex = indexOf content (asc ''\<newline>'') lastImportIndex
        in if nextNewlineIndex \<noteq> - 1
           then Inr (slice content 0 (nextNewlineIndex + 1) @ MEDIA_IMPORT @ asc ''\<newline>''
                     @ sliceFrom content (nextNewlineIndex + 1))
           else Inl (FixerException PATCH_FAILED msg_no_import_place))"

text \<open>\<^verbatim>\<open>Patcher.addMediaLogic\<close>\<close>

definition addMediaLogic :: "jsstring \<Rightarrow> jserror + jsstring" where
  "addMediaLogic content =
     (if includes_js content (asc ''payload.mediaUrls?.length'')
      then Inr content
      else if test deliverAnchor content
      then if test fullPattern content
           then Inr (replace content fullPattern (\<lambda>m. m @ MEDIA_LOGIC))
           else Inl (FixerException PATCH_FAILED msg_deliver_unparsed)
      else Inl (FixerException PATCH_FAILED msg_deliver_missing))"

text \<open>\<^verbatim>\<open>Patcher.verify\<close>\<close>

definition verify :: "jsstring \<Rightarrow> bool" where
  "verify content =
     (let hasImport = includes_js content (asc ''sendMediaFeishu'') \<and> includes_js content (asc ''./media.js'');
          hasMediaLogic = includes_js content (asc ''payload.mediaUrls?.length'');
          hasSendCall = includes_js content (asc ''await sendMediaFeishu'');
          hasMarker = includes_js content (asc ''openclaw-feishu-media-fixer'')
      in hasImport \<and> hasMediaLogic \<and> hasSendCall \<and> hasMarker)"

section \<open>The file system\<close>

text \<open>
  The part of the file system the program touches: the text of each existing
  path, and for each path the error, if any, with which the runtime refuses to
  read it or to write it (missing permission, a directory in place of a file, a
  missing parent directory), with the message of that error. The program is
  single-threaded and runs to completion, so the state is threaded through the
  calls. Console logging is not modelled.
\<close>

record fs =
  files :: "jsstring \<rightharpoonup> jsstring"
  read_error :: "jsstring \<rightharpoonup> jsstring"
  write_error :: "jsstring \<rightharpoonup> jsstring"

definition existsSync :: "fs \<Rightarrow> jsstring \<Rightarrow> bool" where
  "existsSync s p = (files s p \<noteq> None)"

definition readFileSync :: "fs \<Rightarrow> jsstring \<Rightarrow> jserror + jsstring" where
  "readFileSync s p =
     (case files s p of
        None \<Rightarrow> Inl (SystemError (asc ''ENOENT: no such file or directory''))
      | Some d \<Rightarrow>
          (case read_error s p of Some m \<Rightarrow> Inl (SystemError m) | None \<Rightarrow> Inr d))"

definition writeFileSync :: "fs \<Rightarrow> jsstring \<Rightarrow> jsstring \<Rightarrow> jserror + fs" where
  "writeFileSync s p d =
     (case write_error s p of
        Some m \<Rightarrow> Inl (SystemError m)
      | None \<Rightarrow> Inr (s\<lparr>files := (files s)(p \<mapsto> d)\<rparr>))"

definition copyFileSync :: "fs \<Rightarrow> jsstring \<Rightarrow> jsstring \<Rightarrow> jserror + fs" where
  "copyFileSync s src dst =
     (case readFileSync s src of Inl e \<Rightarrow> Inl e | Inr d \<Rightarrow> writeFileSync s dst d)"

text \<open>
  \<^verbatim>\<open>path.basename\<close> (POSIX): trailing slashes are dropped, then the part after the
  last slash is taken.
\<close>

definition basename :: "jsstring \<Rightarrow> jsstring" where
  "basename p = rev (takeWhile (\<lambda>c. c \<noteq> 47) (dropWhile (\<lambda>c. c = 47) (rev p)))"

text \<open>A value used as a condition: \<^verbatim>\<open>undefined\<close>, \<^verbatim>\<open>null\<close> and the empty string are
  falsy.\<close>

definition truthy :: "jsstring option \<Rightarrow> bool" where
  "truthy v = (case v of None \<Rightarrow> False | Some s \<Rightarrow> s \<noteq> [])"

section \<open>The backup store (src/core/backup.ts)\<close>

text \<open>
  \<^verbatim>\<open>s.replace(/[...]/g, r)\<close> for a class of single code units: every unit of the
  class is replaced by \<open>r\<close>.
\<close>

definition replaceEach :: "jsstring \<Rightarrow> jsstring \<Rightarrow> jsstring \<Rightarrow> jsstring" where
  "replaceEach s cls r = concat (map (\<lambda>c. if c \<in> set cls then r else [c]) s)"

text \<open>Messages: "file does not exist: ", "cannot create the backup: ", "backup
  file does not exist: ", "cannot restore the backup: ".\<close>

definition msg_file_missing :: jsstring where
  "msg_file_missing = [25991, 20214, 19981, 23384, 22312] @ asc '': ''"

definition msg_backup_create :: jsstring where
  "msg_backup_create = [26080, 27861, 21019, 24314, 22791, 20221] @ asc '': ''"

definition msg_backup_missing :: jsstring where
  "msg_backup_missing = [22791, 20221, 25991, 20214, 19981, 23384, 22312] @ asc '': ''"

definition msg_backup_restore :: jsstring where
  "msg_backup_restore = [26080, 27861, 24674, 22797, 22791, 20221] @ asc '': ''"

text \<open>
  The name of a backup: \<^verbatim>\<open>`${fileName}.backup-${timestamp}`\<close>, where \<open>now\<close> is the
  value of \<^verbatim>\<open>new Date().toISOString()\<close> at the call.
\<close>

definition backupFileName :: "jsstring \<Rightarrow> jsstring \<Rightarrow> jsstring" where
  "backupFileName now filePath =
     (let timestamp = replaceEach now (asc '':.'') (asc ''-'');
          fileName = basename filePath
      in fileName @ asc ''.backup-'' @ timestamp)"

text \<open>
  \<^verbatim>\<open>BackupManager.create\<close>. The parameters \<open>join\<close> (\<^verbatim>\<open>path.join\<close>), \<open>backupDir\<close> (the
  directory of the manager) and \<open>now\<close> come from the runtime. The result is the
  exception thrown, or the backup path and the new file system.
\<close>

definition create ::
  "(jsstring \<Rightarrow> jsstring \<Rightarrow> jsstring) \<Rightarrow> jsstring \<Rightarrow> jsstring \<Rightarrow> fs \<Rightarrow> jsstring
   \<Rightarrow> jserror + (jsstring \<times> fs)" where
  "create join backupDir now s filePath =
     (if \<not> existsSync s filePath
      then Inl (FixerException FILE_NOT_FOUND (msg_file_missing @ filePath))
      else
        let backupPath = join backupDir (backupFileName now filePath)
        in case copyFileSync s filePath backupPath of
             Inr s' \<Rightarrow> Inr (backupPath, s')
           | Inl e \<Rightarrow> Inl (FixerException PERMISSION_DENIED (msg_backup_create @ errorMessage e)))"

text \<open>\<^verbatim>\<open>BackupManager.restore\<close>\<close>

definition restore :: "fs \<Rightarrow> jsstring \<Rightarrow> jsstring \<Rightarrow> jserror + fs" where
  "restore s backupPath targetPath =
     (if \<not> existsSync s backupPath
      then Inl (FixerException BACKUP_NOT_FOUND (msg_backup_missing @ backupPath))
      else case copyFileSync s backupPath targetPath of
             Inr s' \<Rightarrow> Inr s'
           | Inl e \<Rightarrow> Inl (FixerException PERMISSION_DENIED (msg_backup_restore @ errorMessage e)))"

text \<open>
  \<^verbatim>\<open>file.match(/\.backup-(.+)$/)\<close>: the capture group of the first match. The dot
  matches every code unit but the line terminators LF, CR, U+2028 and U+2029,
  and \<^verbatim>\<open>$\<close> is the end of the input.
\<close>

definition isLineTerminator :: "nat \<Rightarrow> bool" where
  "isLineTerminator c = (c \<in> set [10, 13, 8232, 8233])"

fun timestampMatch :: "jsstring \<Rightarrow> jsstring option" where
  "timestampMatch [] = None"
| "timestampMatch (x # xs) =
     (let t = drop 8 (x # xs)
      in if startsWith (x # xs) (asc ''.backup-'') \<and> t \<noteq> [] \<and> \<not> list_ex isLineTerminator t
         then Some t
         else timestampMatch xs)"

text \<open>\<^verbatim>\<open>file.split('.backup-')[0]\<close>: the text before the first separator, the whole
  text when there is none.\<close>

fun splitHead :: "jsstring \<Rightarrow> jsstring \<Rightarrow> jsstring" where
  "splitHead [] sep = []"
| "splitHead (x # xs) sep = (if startsWith (x # xs) sep then [] else x # splitHead xs sep)"

text \<open>
  The creation time \<^verbatim>\<open>BackupManager.list\<close> gives to the backup named \<open>file\<close>.
  \<open>dateParse\<close> is the runtime's \<^verbatim>\<open>new Date(string).getTime()\<close>, \<open>None\<close> for an invalid
  date; \<open>birthtime\<close> is \<^verbatim>\<open>stats.birthtime\<close>. Times are milliseconds since the epoch.
\<close>

definition resolveCreatedAt :: "(jsstring \<Rightarrow> int option) \<Rightarrow> int \<Rightarrow> jsstring \<Rightarrow> int" where
  "resolveCreatedAt dateParse birthtime file =
     (case timestampMatch file of
        None \<Rightarrow> birthtime
      | Some t \<Rightarrow>
          (let timestampStr =
                 replaceEach (replaceEach t (asc ''-'') (asc '':'')) (asc ''-'') (asc ''.'')
           in (case dateParse timestampStr of Some parsed \<Rightarrow> parsed | None \<Rightarrow> birthtime)))"

record BackupInfo =
  path :: jsstring
  originalPath :: jsstring
  createdAt :: int
  size :: nat

text \<open>
  \<^verbatim>\<open>BackupManager.list\<close>. \<open>entries\<close> is the directory listing of the backup directory
  (\<open>None\<close> when the directory does not exist), each name with the result of
  \<^verbatim>\<open>statSync\<close> on it: birth time and size, or \<open>None\<close> when it throws. The sort of the
  runtime is stable; the newest backup comes first.
\<close>

definition list_backups ::
  "(jsstring \<Rightarrow> jsstring \<Rightarrow> jsstring) \<Rightarrow> (jsstring \<Rightarrow> int option) \<Rightarrow> jsstring
   \<Rightarrow> (jsstring \<times> (int \<times> nat) option) list option \<Rightarrow> jsstring option \<Rightarrow> BackupInfo list" where
  "list_backups join dateParse backupDir entries originalFile =
     (case entries of
        None \<Rightarrow> []
      | Some es \<Rightarrow>
          sort_key (\<lambda>b. - createdAt b)
            (concat (map (\<lambda>(file, stats).
               if \<not> includes_js file (asc ''.backup-'') then []
               else
                 let originalName = splitHead file (asc ''.backup-'')
                 in if truthy originalFile \<and> Some originalName \<noteq> map_option basename originalFile
                    then []
                    else (case stats of
                            None \<Rightarrow> []
                          | Some (birthtime, sz) \<Rightarrow>
                              [\<lparr>path = join backupDir file,
                                originalPath =
                                  (if truthy originalFile
                                   then (case originalFile of Some f \<Rightarrow> f | None \<Rightarrow> [])
                                   else join (asc ''.'') originalName),
                                createdAt = resolveCreatedAt dateParse birthtime file,
                                size = sz\<rparr>])) es)))"

text \<open>
  The ECMAScript date time string format \<^verbatim>\<open>YYYY-MM-DDTHH:mm:ss.sssZ\<close> that
  \<^verbatim>\<open>toISOString\<close> produces for the years 0 to 9999: digits at the positions of
  the letters, the punctuation as written.
\<close>

definition isDigit :: "nat \<Rightarrow> bool" where
  "isDigit c = (48 \<le> c \<and> c \<le> 57)"

fun fitsFormat :: "jsstring \<Rightarrow> jsstring \<Rightarrow> bool" where
  "fitsFormat [] [] = True"
| "fitsFormat (f # fs) (c # cs) =
     ((if f = 100 then isDigit c else c = f) \<and> fitsFormat fs cs)"
| "fitsFormat _ _ = False"

definition isISOString :: "jsstring \<Rightarrow> bool" where
  "isISOString s = fitsFormat (asc ''dddd-dd-ddTdd:dd:dd.dddZ'') s"

section \<open>The content detector (src/core/detector.ts)\<close>

text \<open>\<^verbatim>\<open>/import\s*\{[^}]*sendMediaFeishu[^}]*\}\s*from\s*['"]\.\/media\.js['"]/\<close>\<close>

definition MEDIA_IMPORT_PATTERN :: rx where
  \<open>MEDIA_IMPORT_PATTERN =
     seq [lit ''import'', ws, lit ''{'', Rep (NoneOf (asc ''}'')),
          lit ''sendMediaFeishu'', Rep (NoneOf (asc ''}'')), lit ''}'', ws,
          lit ''from'', ws, quote, lit ''./media.js'', quote]\<close>

text \<open>\<^verbatim>\<open>/payload\.mediaUrls\?\.length/\<close>\<close>

definition MEDIA_LOGIC_PATTERN :: rx where
  \<open>MEDIA_LOGIC_PATTERN = lit ''payload.mediaUrls?.length''\<close>

text \<open>\<^verbatim>\<open>/await\s+sendMediaFeishu\s*\(/\<close>\<close>

definition SEND_MEDIA_CALL_PATTERN :: rx where
  \<open>SEND_MEDIA_CALL_PATTERN =
     seq [lit ''await'', Rep1 WhiteSpace, lit ''sendMediaFeishu'', ws, lit ''('']\<close>

datatype CheckStatus =
    HEALTHY | FIXED | NEEDS_FIX | UNKNOWN | ERROR
  | STATUS_OPENCLAW_NOT_FOUND | STATUS_FILE_NOT_FOUND | READ_ERROR

datatype IssueKind = error_issue | warning_issue | missing_issue

text \<open>A \<^verbatim>\<open>CheckIssue\<close>; the fields \<^verbatim>\<open>description\<close> and \<^verbatim>\<open>line\<close> are never set by the
  detector and are left out.\<close>

record CheckIssue =
  issue_type :: IssueKind
  issue_code :: FixerError
  issue_message :: jsstring
  issue_file :: "jsstring option"
  issue_suggestion :: "jsstring option"

record CheckResult =
  hasProblem :: bool
  needsFix :: bool
  status :: CheckStatus
  details :: "jsstring list"
  issues :: "CheckIssue list"
  checkedFiles :: "jsstring list option"
  openclawPath :: "jsstring option"
  openclawVersion :: "jsstring option"
  targetFile :: "jsstring option"

text \<open>The three findings of the classification: "the sendMediaFeishu import
  statement is missing", "the media sending logic is missing", "the
  sendMediaFeishu function call is missing", with their suggestions.\<close>

definition issue_missing_import :: "jsstring \<Rightarrow> CheckIssue" where
  \<open>issue_missing_import file =
     \<lparr>issue_type = missing_issue, issue_code = NOT_FIXED,
      issue_message = [32570, 23569] @ asc '' sendMediaFeishu '' @ [23548, 20837, 35821, 21477],
      issue_file = Some file,
      issue_suggestion =
        Some ([38656, 35201, 28155, 21152]
              @ asc '': import { sendMediaFeishu } from "./media.js";'')\<rparr>\<close>

definition issue_missing_logic :: "jsstring \<Rightarrow> CheckIssue" where
  "issue_missing_logic file =
     \<lparr>issue_type = missing_issue, issue_code = NOT_FIXED,
      issue_message = [32570, 23569, 23186, 20307, 21457, 36865, 36923, 36753],
      issue_file = Some file,
      issue_suggestion =
        Some ([38656, 35201, 22312] @ asc '' deliver ''
              @ [20989, 25968, 24320, 22836, 28155, 21152, 23186, 20307, 21457, 36865, 20195, 30721])\<rparr>"

definition issue_missing_call :: "jsstring \<Rightarrow> CheckIssue" where
  "issue_missing_call file =
     \<lparr>issue_type = warning_issue, issue_code = NOT_FIXED,
      issue_message = [32570, 23569] @ asc '' sendMediaFeishu '' @ [20989, 25968, 35843, 29992],
      issue_file = Some file,
      issue_suggestion =
        Some ([38656, 35201, 35843, 29992] @ asc '' sendMediaFeishu ''
              @ [20989, 25968, 21457, 36865, 23186, 20307])\<rparr>"

text \<open>The detail lines: "the OpenClaw Feishu image sending function is configured",
  "media sending is enabled", "... needs to be fixed", and one line for each
  missing part.\<close>

definition details_fixed :: "jsstring list" where
  "details_fixed =
     [asc ''OpenClaw '' @ [39134, 20070, 22270, 29255, 21457, 36865, 21151, 33021, 24050,
                           27491, 24120, 37197, 32622],
      [23186, 20307, 21457, 36865, 21151, 33021, 24050, 21551, 29992]]"

definition details_needs_fix :: "bool \<Rightarrow> bool \<Rightarrow> bool \<Rightarrow> jsstring list" where
  "details_needs_fix hasMediaImport hasMediaLogic hasSendMediaCall =
     [asc ''OpenClaw '' @ [39134, 20070, 22270, 29255, 21457, 36865, 21151, 33021, 38656,
                           35201, 20462, 22797]]
     @ (if \<not> hasMediaImport
        then [asc ''- '' @ [32570, 23569] @ asc '' sendMediaFeishu '' @ [23548, 20837, 35821, 21477]]
        else [])
     @ (if \<not> hasMediaLogic
        then [asc ''- '' @ [32570, 23569, 23186, 20307, 21457, 36865, 36923, 36753]]
        else [])
     @ (if \<not> hasSendMediaCall \<and> hasMediaLogic
        then [asc ''- '' @ [32570, 23569] @ asc '' sendMediaFeishu '' @ [20989, 25968, 35843, 29992]]
        else [])"

text \<open>The reports of the three early exits: installation not found, target
  file not found, target file not readable.\<close>

definition report_openclaw_not_found :: CheckResult where
  "report_openclaw_not_found =
     \<lparr>hasProblem = True, needsFix = False, status = STATUS_OPENCLAW_NOT_FOUND,
      details = [[26410, 25214, 21040] @ asc '' OpenClaw ''
                 @ [23433, 35013, 36335, 24452, 65292, 35831, 30830, 35748] @ asc '' OpenClaw ''
                 @ [24050, 27491, 30830, 23433, 35013]],
      issues = [\<lparr>issue_type = error_issue, issue_code = OPENCLAW_NOT_FOUND,
                 issue_message = [26410, 25214, 21040] @ asc '' OpenClaw ''
                                 @ [23433, 35013, 36335, 24452],
                 issue_file = None,
                 issue_suggestion =
                   Some ([35831, 20351, 29992] @ asc '' npm install -g openclaw ''
                         @ [23433, 35013] @ asc '' OpenClaw'')\<rparr>],
      checkedFiles = None, openclawPath = None, openclawVersion = None, targetFile = None\<rparr>"

definition report_file_not_found :: "jsstring option \<Rightarrow> jsstring option \<Rightarrow> CheckResult" where
  "report_file_not_found installPath version =
     \<lparr>hasProblem = True, needsFix = False, status = STATUS_FILE_NOT_FOUND,
      details = [[26410, 25214, 21040, 30446, 26631, 25991, 20214]
                 @ asc '': extensions/feishu/src/reply-dispatcher.ts''],
      issues = [\<lparr>issue_type = error_issue, issue_code = FILE_NOT_FOUND,
                 issue_message = [26410, 25214, 21040, 30446, 26631, 25991, 20214]
                                 @ asc '' reply-dispatcher.ts'',
                 issue_file = None,
                 issue_suggestion =
                   Some ([35831, 30830, 35748] @ asc '' OpenClaw ''
                         @ [29256, 26412, 26159, 21542, 20860, 23481, 65288, 38656, 35201]
                         @ asc '' 2026.2.x '' @ [29256, 26412, 65289])\<rparr>],
      checkedFiles = None, openclawPath = installPath, openclawVersion = version,
      targetFile = None\<rparr>"

definition report_read_error ::
  "jsstring option \<Rightarrow> jsstring option \<Rightarrow> jsstring \<Rightarrow> CheckResult" where
  "report_read_error installPath version file =
     \<lparr>hasProblem = True, needsFix = False, status = READ_ERROR,
      details = [[26080, 27861, 35835, 21462, 30446, 26631, 25991, 20214, 20869, 23481]],
      issues = [\<lparr>issue_type = error_issue, issue_code = PERMISSION_DENIED,
                 issue_message = [26080, 27861, 35835, 21462, 30446, 26631, 25991, 20214,
                                  20869, 23481],
                 issue_file = Some file, issue_suggestion = None\<rparr>],
      checkedFiles = Some [file], openclawPath = installPath, openclawVersion = version,
      targetFile = Some file\<rparr>"

text \<open>
  \<^verbatim>\<open>ProblemDetector.check\<close>. The results of \<^verbatim>\<open>locateOpenClaw\<close>, \<^verbatim>\<open>getOpenClawVersion\<close>
  and \<^verbatim>\<open>locateTargetFile\<close>, which probe the environment of the process, are the
  parameters \<open>installPath\<close>, \<open>version\<close> and \<open>target\<close>.
\<close>

definition check ::
  "fs \<Rightarrow> jsstring option \<Rightarrow> jsstring option \<Rightarrow> jsstring option \<Rightarrow> CheckResult" where
  "check s installPath version target =
     (if \<not> truthy installPath then report_openclaw_not_found
      else case target of
        None \<Rightarrow> report_file_not_found installPath version
      | Some file \<Rightarrow>
          if file = [] then report_file_not_found installPath version
          else (case readFileSync s file of
            Inl err \<Rightarrow> report_read_error installPath version file
          | Inr content \<Rightarrow>
              let hasMediaImport = test MEDIA_IMPORT_PATTERN content;
                  issues1 = (if \<not> hasMediaImport then [issue_missing_import file] else []);
                  hasMediaLogic = test MEDIA_LOGIC_PATTERN content;
                  issues2 = issues1 @ (if \<not> hasMediaLogic then [issue_missing_logic file] else []);
                  hasSendMediaCall = test SEND_MEDIA_CALL_PATTERN content;
                  issues3 = issues2 @ (if \<not> hasSendMediaCall \<and> hasMediaLogic
                                       then [issue_missing_call file] else []);
                  isFixed = (hasMediaImport \<and> hasMediaLogic \<and> hasSendMediaCall)
              in \<lparr>hasProblem = \<not> isFixed, needsFix = \<not> isFixed,
                  status = (if isFixed then FIXED else NEEDS_FIX),
                  details = (if isFixed then details_fixed
                             else details_needs_fix hasMediaImport hasMediaLogic hasSendMediaCall),
                  issues = issues3, checkedFiles = Some [file],
                  openclawPath = installPath, openclawVersion = version,
                  targetFile = Some file\<rparr>))"

section \<open>The patch engine: apply (src/core/patcher.ts)\<close>

record FixerErrorInfo =
  err_code :: FixerError
  err_message :: jsstring

text \<open>A \<^verbatim>\<open>FixResult\<close> with the fields \<^verbatim>\<open>Patcher.apply\<close> sets.\<close>

record FixResult =
  success :: bool
  message :: jsstring
  backupPath :: "jsstring option"
  error :: "jserror option"
  errors :: "FixerErrorInfo list"

text \<open>Messages: "target file not found", "already fixed, no need to fix again",
  "already fixed", "target file does not exist: ", "cannot read the file: ",
  "backup failed: ", "the patch was applied", "applying the patch failed: ".\<close>

definition msg_no_target :: jsstring where
  "msg_no_target = [26410, 25214, 21040, 30446, 26631, 25991, 20214]"

definition msg_already_fixed_long :: jsstring where
  "msg_already_fixed_long =
     [24050, 32463, 20462, 22797, 36807, 20102, 65292, 26080, 38656, 37325, 22797, 20462, 22797]"

definition msg_already_fixed :: jsstring where
  "msg_already_fixed = [24050, 32463, 20462, 22797, 36807, 20102]"

definition msg_target_missing :: jsstring where
  "msg_target_missing = [30446, 26631, 25991, 20214, 19981, 23384, 22312] @ asc '': ''"

definition msg_cannot_read :: jsstring where
  "msg_cannot_read = [26080, 27861, 35835, 21462, 25991, 20214] @ asc '': ''"

definition msg_backup_failed :: jsstring where
  "msg_backup_failed = [22791, 20221, 22833, 36133] @ asc '': ''"

definition msg_patch_applied :: jsstring where
  "msg_patch_applied = [20462, 22797, 34917, 19969, 24212, 29992, 25104, 21151]"

definition msg_patch_failed :: jsstring where
  "msg_patch_failed = [24212, 29992, 34917, 19969, 22833, 36133] @ asc '': ''"

text \<open>A failed result with one error entry.\<close>

definition failure :: "FixerError \<Rightarrow> jsstring \<Rightarrow> jsstring \<Rightarrow> jserror option
                       \<Rightarrow> jsstring option \<Rightarrow> FixResult" where
  "failure c m em e b =
     \<lparr>success = False, message = m, backupPath = b, error = e,
      errors = [\<lparr>err_code = c, err_message = em\<rparr>]\<rparr>"

text \<open>
  The body of the \<^verbatim>\<open>try\<close> block of \<^verbatim>\<open>Patcher.apply\<close>: the two insertion steps, the
  verification and the write. \<open>Inl\<close> is the exception that reaches the \<^verbatim>\<open>catch\<close>.
\<close>

definition patchAndWrite :: "fs \<Rightarrow> jsstring \<Rightarrow> jsstring \<Rightarrow> jserror + fs" where
  "patchAndWrite s file content =
     (case addImport content of
        Inl e \<Rightarrow> Inl e
      | Inr content1 \<Rightarrow>
          (case addMediaLogic content1 of
             Inl e \<Rightarrow> Inl e
           | Inr content2 \<Rightarrow>
               if \<not> verify content2
               then Inl (FixerException PATCH_FAILED msg_verify_failed)
               else writeFileSync s file content2))"

text \<open>
  \<^verbatim>\<open>Patcher.apply\<close>. \<open>join\<close>, \<open>backupDir\<close> and \<open>now\<close> are the parameters of the backup
  manager of the patcher; \<open>noBackup\<close> is \<^verbatim>\<open>options.noBackup\<close>. The result is the
  \<^verbatim>\<open>FixResult\<close> and the file system after the call.
\<close>

definition apply_patch ::
  "(jsstring \<Rightarrow> jsstring \<Rightarrow> jsstring) \<Rightarrow> jsstring \<Rightarrow> jsstring \<Rightarrow> fs \<Rightarrow> CheckResult \<Rightarrow> bool
   \<Rightarrow> FixResult \<times> fs" where
  "apply_patch join backupDir now s checkResult noBackup =
     (if \<not> truthy (targetFile checkResult)
      then (failure FILE_NOT_FOUND msg_no_target msg_no_target None None, s)
      else if \<not> hasProblem checkResult
      then (failure ALREADY_FIXED msg_already_fixed_long msg_already_fixed None None, s)
      else
        let file = (case targetFile checkResult of Some f \<Rightarrow> f | None \<Rightarrow> [])
        in if \<not> existsSync s file
           then (failure FILE_NOT_FOUND (msg_target_missing @ file) (msg_target_missing @ file)
                   None None, s)
           else case readFileSync s file of
             Inl e \<Rightarrow>
               (failure PERMISSION_DENIED (msg_cannot_read @ errorMessage e)
                  (msg_cannot_read @ errorMessage e) (Some e) None, s)
           | Inr content \<Rightarrow>
               (case (if \<not> noBackup
                      then (case create join backupDir now s file of
                              Inl e \<Rightarrow> Inl e
                            | Inr (b, s1) \<Rightarrow> Inr (Some b, s1))
                      else Inr (None, s)) of
                  Inl e \<Rightarrow>
                    (failure PERMISSION_DENIED (msg_backup_failed @ errorMessage e)
                       (msg_backup_failed @ errorMessage e) (Some e) None, s)
                | Inr (backup, s1) \<Rightarrow>
                    (case patchAndWrite s1 file content of
                       Inr s2 \<Rightarrow>
                         (\<lparr>success = True, message = msg_patch_applied, backupPath = backup,
                           error = None, errors = []\<rparr>, s2)
                     | Inl e \<Rightarrow>
                         (failure PATCH_FAILED (msg_patch_failed @ errorMessage e)
                            (msg_patch_failed @ errorMessage e) (Some e) backup,
                          if truthy backup
                          then (case restore s1 (case backup of Some b \<Rightarrow> b | None \<Rightarrow> []) file of
                                  Inr s3 \<Rightarrow> s3
                                | Inl e' \<Rightarrow> s1)
                          else s1))))"

section \<open>Example inputs\<close>

text \<open>
  Concrete inputs on which the theorems below are instantiated. \<open>join_simple\<close> is
  \<^verbatim>\<open>path.join\<close> on a directory and a file name. The file systems hold one file:
  \<open>fs_one\<close> refuses nothing, \<open>fs_unreadable\<close> refuses to read the file, \<open>fs_readonly\<close>
  refuses every write, \<open>fs_empty\<close> holds no file. \<open>report_of d\<close> is the report of the
  detector on a target file \<^verbatim>\<open>/t.ts\<close> with text \<open>d\<close>. The texts: a fully patched
  one; the logic marker without a call; a comment that names the helper and its
  module; a line without import or line break; two lines without an import; a
  host file with the sibling
  import and the deliver function, and what the two steps make of it; a text
  with the three substrings of \<^verbatim>\<open>verify\<close> but no deliver function; a hand-edited
  partial patch; a text without the deliver function; and a host file that names
  the helper and its module in a comment only.
\<close>

definition join_simple :: "jsstring \<Rightarrow> jsstring \<Rightarrow> jsstring" where
  "join_simple a b = a @ asc ''/'' @ b"

definition fs_one :: "jsstring \<Rightarrow> jsstring \<Rightarrow> fs" where
  "fs_one p d = \<lparr>files = [p \<mapsto> d], read_error = Map.empty, write_error = Map.empty\<rparr>"

definition fs_unreadable :: "jsstring \<Rightarrow> jsstring \<Rightarrow> fs" where
  "fs_unreadable p d =
     \<lparr>files = [p \<mapsto> d], read_error = [p \<mapsto> asc ''EACCES: permission denied''],
      write_error = Map.empty\<rparr>"

definition fs_empty :: fs where
  "fs_empty = \<lparr>files = Map.empty, read_error = Map.empty, write_error = Map.empty\<rparr>"

definition report_of :: "jsstring \<Rightarrow> CheckResult" where
  "report_of d = check (fs_one (asc ''/t.ts'') d) (Some (asc ''/oc'')) None (Some (asc ''/t.ts''))"

definition text_patched :: jsstring where
  \<open>text_patched = asc ''import { sendMediaFeishu } from "./media.js"; if (payload.mediaUrls?.length) await sendMediaFeishu(x)''\<close>

definition text_no_call :: jsstring where
  \<open>text_no_call = asc ''if (payload.mediaUrls?.length) send(x)''\<close>

definition text_comment :: jsstring where
  "text_comment = asc ''// sendMediaFeishu lives in ./media.js''"

definition text_plain :: jsstring where
  "text_plain = asc ''const x = 1;''"

definition text_host :: jsstring where
  \<open>text_host = asc ''import { sendMarkdownCardFeishu } from "./send.js";\<newline>deliver: async (payload: ReplyPayload) => {\<newline>}''\<close>

definition text_host_imported :: jsstring where
  \<open>text_host_imported =
     asc ''import { sendMarkdownCardFeishu } from "./send.js"'' @ asc ''\<newline>'' @ MEDIA_IMPORT
     @ asc '';\<newline>deliver: async (payload: ReplyPayload) => {\<newline>}''\<close>

definition text_host_patched :: jsstring where
  \<open>text_host_patched =
     asc ''import { sendMarkdownCardFeishu } from "./send.js"'' @ asc ''\<newline>'' @ MEDIA_IMPORT
     @ asc '';\<newline>deliver: async (payload: ReplyPayload) => {'' @ MEDIA_LOGIC @ asc ''\<newline>}''\<close>




definition text_two_lines :: jsstring where
  "text_two_lines = asc ''foo\<newline>bar''"



definition text_mention :: jsstring where
  "text_mention =
     asc ''// TODO: call sendMediaFeishu from ./media.js\<newline>deliver: async (payload: ReplyPayload) => {\<newline>}''"

definition text_mention_patched :: jsstring where
  "text_mention_patched =
     asc ''// TODO: call sendMediaFeishu from ./media.js\<newline>deliver: async (payload: ReplyPayload) => {''
     @ MEDIA_LOGIC @ asc ''\<newline>}''"

section \<open>Strings and the matcher\<close>

lemma startsWith_iff: "startsWith s p \<longleftrightarrow> (\<exists>t. s = p @ t)"
  by (induction s p rule: startsWith.induct) auto

lemma includes_js_iff: "includes_js s p \<longleftrightarrow> (\<exists>a b. s = a @ p @ b)"
proof (induction s)
  case Nil
  then show ?case by auto
next
  case (Cons x xs)
  show ?case
  proof
    assume "includes_js (x # xs) p"
    then consider "startsWith (x # xs) p" | "includes_js xs p" by auto
    then show "\<exists>a b. x # xs = a @ p @ b"
    proof cases
      case 1
      then obtain t where "x # xs = p @ t" by (auto simp: startsWith_iff)
      then have "x # xs = [] @ p @ t" by simp
      then show ?thesis by blast
    next
      case 2
      then obtain a b where "xs = a @ p @ b" using Cons.IH by blast
      then have "x # xs = (x # a) @ p @ b" by simp
      then show ?thesis by blast
    qed
  next
    assume "\<exists>a b. x # xs = a @ p @ b"
    then obtain a b where ab: "x # xs = a @ p @ b" by blast
    show "includes_js (x # xs) p"
    proof (cases a)
      case Nil
      with ab have "startsWith (x # xs) p" by (auto simp: startsWith_iff)
      then show ?thesis by simp
    next
      case (Cons y ys)
      with ab have "xs = ys @ p @ b" by simp
      then have "includes_js xs p" using Cons.IH by blast
      then show ?thesis by simp
    qed
  qed
qed


lemma includes_js_appendI: "includes_js m p \<Longrightarrow> includes_js (a @ m @ b) p"
proof -
  assume "includes_js m p"
  then obtain x y where "m = x @ p @ y" by (auto simp: includes_js_iff)
  then have "a @ m @ b = (a @ x) @ p @ (y @ b)" by simp
  then show ?thesis unfolding includes_js_iff by blast
qed

lemma includes_js_drop: "includes_js (drop k s) p \<Longrightarrow> includes_js s p"
proof -
  assume "includes_js (drop k s) p"
  then obtain a b where "drop k s = a @ p @ b" by (auto simp: includes_js_iff)
  then have "s = (take k s @ a) @ p @ b" by (metis append_take_drop_id append.assoc)
  then show ?thesis unfolding includes_js_iff by blast
qed

lemma star_set: "set (star c s) = {t. \<exists>w. s = w @ t \<and> (\<forall>x \<in> set w. inClass c x)}"
proof (induction s)
  case Nil
  then show ?case by auto
next
  case (Cons x xs)
  show ?case
  proof (cases "inClass c x")
    case True
    have "{t. \<exists>w. x # xs = w @ t \<and> (\<forall>y \<in> set w. inClass c y)}
          = insert (x # xs) {t. \<exists>w. xs = w @ t \<and> (\<forall>y \<in> set w. inClass c y)}"
      (is "?L = ?R")
    proof (intro set_eqI iffI)
      fix t assume "t \<in> ?L"
      then obtain w where w: "x # xs = w @ t" "\<forall>y \<in> set w. inClass c y" by blast
      show "t \<in> ?R"
      proof (cases w)
        case Nil
        with w show ?thesis by simp
      next
        case (Cons z zs)
        with w have "xs = zs @ t" "\<forall>y \<in> set zs. inClass c y" by auto
        then show ?thesis by blast
      qed
    next
      fix t assume "t \<in> ?R"
      then consider "t = x # xs" | w where "xs = w @ t" "\<forall>y \<in> set w. inClass c y" by blast
      then show "t \<in> ?L"
      proof cases
        case 1
        then have "x # xs = [] @ t \<and> (\<forall>y \<in> set []. inClass c y)" by simp
        then show ?thesis by blast
      next
        case 2
        then have "x # xs = (x # w) @ t \<and> (\<forall>y \<in> set (x # w). inClass c y)"
          using True by simp
        then show ?thesis by blast
      qed
    qed
    then show ?thesis using True Cons.IH by simp
  next
    case False
    have "{t. \<exists>w. x # xs = w @ t \<and> (\<forall>y \<in> set w. inClass c y)} = {x # xs}"
    proof (intro set_eqI iffI)
      fix t assume "t \<in> {t. \<exists>w. x # xs = w @ t \<and> (\<forall>y \<in> set w. inClass c y)}"
      then obtain w where w: "x # xs = w @ t" "\<forall>y \<in> set w. inClass c y" by blast
      then have "w = []" using False by (cases w) auto
      with w show "t \<in> {x # xs}" by simp
    next
      fix t assume "t \<in> {x # xs}"
      then have "x # xs = [] @ t \<and> (\<forall>y \<in> set []. inClass c y)" by simp
      then show "t \<in> {t. \<exists>w. x # xs = w @ t \<and> (\<forall>y \<in> set w. inClass c y)}" by blast
    qed
    then show ?thesis using False by simp
  qed
qed

lemma rests_set: "set (rests r s) = {t. \<exists>w \<in> lang r. s = w @ t}"
proof (induction r arbitrary: s)
  case Eps
  then show ?case by auto
next
  case (Atom c)
  then show ?case by (cases s) auto
next
  case (Rep c)
  then show ?case by (auto simp: star_set)
next
  case (Rep1 c)
  show ?case
  proof (cases s)
    case Nil
    then show ?thesis by auto
  next
    case (Cons x xs)
    show ?thesis
    proof (cases "inClass c x")
      case True
      have "{t. \<exists>w \<in> lang (Rep1 c). x # xs = w @ t}
            = {t. \<exists>w. xs = w @ t \<and> (\<forall>y \<in> set w. inClass c y)}" (is "?L = ?R")
      proof (intro set_eqI iffI)
        fix t assume "t \<in> ?L"
        then obtain w where w: "w \<noteq> []" "\<forall>y \<in> set w. inClass c y" "x # xs = w @ t" by auto
        then obtain z zs where "w = z # zs" by (cases w) auto
        with w have "xs = zs @ t \<and> (\<forall>y \<in> set zs. inClass c y)" by auto
        then show "t \<in> ?R" by blast
      next
        fix t assume "t \<in> ?R"
        then obtain w where "xs = w @ t" "\<forall>y \<in> set w. inClass c y" by blast
        then have "x # w \<in> lang (Rep1 c) \<and> x # xs = (x # w) @ t" using True by simp
        then show "t \<in> ?L" by blast
      qed
      then show ?thesis using Cons True by (simp add: star_set)
    next
      case False
      have "{t. \<exists>w \<in> lang (Rep1 c). x # xs = w @ t} = {}"
      proof -
        have "\<not> (w \<in> lang (Rep1 c) \<and> x # xs = w @ t)" for w t
          using False by (cases w) auto
        then show ?thesis by blast
      qed
      then show ?thesis using Cons False by simp
    qed
  qed
next
  case (Opt r)
  then show ?case by auto
next
  case (Cat a b)
  show ?case
  proof (intro set_eqI iffI)
    fix t assume "t \<in> set (rests (Cat a b) s)"
    then obtain m where "m \<in> set (rests a s)" "t \<in> set (rests b m)" by auto
    then obtain u v where "u \<in> lang a" "s = u @ m" "v \<in> lang b" "m = v @ t"
      using Cat.IH by blast
    then have "u @ v \<in> lang (Cat a b) \<and> s = (u @ v) @ t" by auto
    then show "t \<in> {t. \<exists>w \<in> lang (Cat a b). s = w @ t}" by blast
  next
    fix t assume "t \<in> {t. \<exists>w \<in> lang (Cat a b). s = w @ t}"
    then obtain u v where uv: "u \<in> lang a" "v \<in> lang b" "s = (u @ v) @ t" by auto
    then have "v @ t \<in> set (rests a s)" using Cat.IH(1) by auto
    moreover have "t \<in> set (rests b (v @ t))" using uv Cat.IH(2) by auto
    ultimately show "t \<in> set (rests (Cat a b) s)" by auto
  qed
qed

lemma rests_hd_lang:
  assumes "rests r s = t # ts"
  shows "\<exists>w \<in> lang r. s = w @ t"
proof -
  have "t \<in> set (rests r s)" using assms by simp
  then show ?thesis by (simp add: rests_set)
qed

lemma rests_Nil_iff: "rests r s = [] \<longleftrightarrow> (\<forall>w t. s = w @ t \<longrightarrow> w \<notin> lang r)"
proof -
  have "rests r s = [] \<longleftrightarrow> set (rests r s) = {}" by simp
  also have "\<dots> \<longleftrightarrow> (\<forall>w t. s = w @ t \<longrightarrow> w \<notin> lang r)" by (auto simp: rests_set)
  finally show ?thesis .
qed

lemma exec_Some:
  "exec r s = Some (b, m, a) \<Longrightarrow> s = b @ m @ a \<and> m \<in> lang r"
proof (induction s arbitrary: b)
  case Nil
  then obtain t ts where ts: "rests r [] = t # ts" and bma: "b = []" "m = []" "a = []"
    by (auto split: list.splits)
  from rests_hd_lang[OF ts] have "[] \<in> lang r" by auto
  with bma show ?case by simp
next
  case (Cons x xs)
  show ?case
  proof (cases "rests r (x # xs)")
    case Nil
    with Cons.prems obtain b' where b': "exec r xs = Some (b', m, a)" "b = x # b'"
      by (auto split: prod.splits)
    from Cons.IH[OF b'(1)] b'(2) show ?thesis by simp
  next
    case (Cons t ts)
    with Cons.prems have bma: "b = []" "m = take (length (x # xs) - length t) (x # xs)" "a = t"
      by auto
    from rests_hd_lang[OF Cons] obtain w where w: "w \<in> lang r" "x # xs = w @ t" by blast
    then have "m = w" using bma(2) by simp
    with w bma show ?thesis by simp
  qed
qed

lemma exec_None_iff:
  "exec r s = None \<longleftrightarrow> (\<forall>b m a. s = b @ m @ a \<longrightarrow> m \<notin> lang r)"
proof (induction s)
  case Nil
  have "exec r [] = None \<longleftrightarrow> rests r [] = []" by (auto split: list.splits)
  then show ?case by (auto simp: rests_Nil_iff)
next
  case (Cons x xs)
  show ?case
  proof
    assume ex: "exec r (x # xs) = None"
    then have r0: "rests r (x # xs) = []" and r1: "exec r xs = None"
      by (auto split: list.splits)
    show "\<forall>b m a. x # xs = b @ m @ a \<longrightarrow> m \<notin> lang r"
    proof (intro allI impI)
      fix b m a assume bma: "x # xs = b @ m @ a"
      show "m \<notin> lang r"
      proof (cases b)
        case Nil
        then show ?thesis using bma r0 by (auto simp: rests_Nil_iff)
      next
        case (Cons y ys)
        then have "xs = ys @ m @ a" using bma by simp
        then show ?thesis using r1 Cons.IH by blast
      qed
    qed
  next
    assume all: "\<forall>b m a. x # xs = b @ m @ a \<longrightarrow> m \<notin> lang r"
    have r0: "rests r (x # xs) = []"
      unfolding rests_Nil_iff
    proof (intro allI impI)
      fix w t assume "x # xs = w @ t"
      then have "x # xs = [] @ w @ t" by simp
      then show "w \<notin> lang r" using all by blast
    qed
    have "\<forall>b m a. xs = b @ m @ a \<longrightarrow> m \<notin> lang r"
    proof (intro allI impI)
      fix b m a assume "xs = b @ m @ a"
      then have "x # xs = (x # b) @ m @ a" by simp
      then show "m \<notin> lang r" using all by blast
    qed
    then have "exec r xs = None" using Cons.IH by blast
    then show "exec r (x # xs) = None" using r0 by simp
  qed
qed

lemma test_iff: "test r s \<longleftrightarrow> (\<exists>b m a. s = b @ m @ a \<and> m \<in> lang r)"
  by (simp add: test_def exec_None_iff)

lemma lang_lit: "lang (lit w) = {asc w}"
  by (induction w) (auto simp: lit_def asc_def)

lemma lang_seq_Nil: "lang (seq []) = {[]}"
  by (simp add: seq_def)

lemma lang_seq_Cons: "lang (seq (r # rs)) = {u @ v | u v. u \<in> lang r \<and> v \<in> lang (seq rs)}"
  by (simp add: seq_def)

lemma lang_seq_append:
  "lang (seq (xs @ ys)) = {u @ v | u v. u \<in> lang (seq xs) \<and> v \<in> lang (seq ys)}"
proof (induction xs)
  case Nil
  then show ?case by (simp add: lang_seq_Nil)
next
  case (Cons r xs)
  show ?case
  proof (intro set_eqI iffI)
    fix w assume "w \<in> lang (seq ((r # xs) @ ys))"
    then obtain u v where "w = u @ v" "u \<in> lang r" "v \<in> lang (seq (xs @ ys))"
      by (auto simp: lang_seq_Cons)
    with Cons.IH obtain v1 v2 where "v = v1 @ v2" "v1 \<in> lang (seq xs)" "v2 \<in> lang (seq ys)"
      by auto
    with \<open>w = u @ v\<close> \<open>u \<in> lang r\<close>
    have "w = (u @ v1) @ v2 \<and> u @ v1 \<in> lang (seq (r # xs)) \<and> v2 \<in> lang (seq ys)"
      by (auto simp: lang_seq_Cons)
    then show "w \<in> {u @ v | u v. u \<in> lang (seq (r # xs)) \<and> v \<in> lang (seq ys)}" by blast
  next
    fix w assume "w \<in> {u @ v | u v. u \<in> lang (seq (r # xs)) \<and> v \<in> lang (seq ys)}"
    then obtain u v where "w = u @ v" "u \<in> lang (seq (r # xs))" "v \<in> lang (seq ys)" by blast
    then obtain u1 u2 where "u = u1 @ u2" "u1 \<in> lang r" "u2 \<in> lang (seq xs)"
      by (auto simp: lang_seq_Cons)
    with \<open>w = u @ v\<close> \<open>v \<in> lang (seq ys)\<close> Cons.IH
    have "w = u1 @ (u2 @ v) \<and> u1 \<in> lang r \<and> u2 @ v \<in> lang (seq (xs @ ys))" by auto
    then show "w \<in> lang (seq ((r # xs) @ ys))" by (auto simp: lang_seq_Cons)
  qed
qed

lemma lang_ws: "lang ws = {w. \<forall>x \<in> set w. isWhiteSpace x}"
  by (simp add: ws_def)

lemma lang_quote: "lang quote = {[39], [34]}"
  by (auto simp: quote_def asc_def)

lemma test_lit: "test (lit w) s = includes_js s (asc w)"
  by (simp add: test_iff lang_lit includes_js_iff)

lemma lang_by_rests: "[] \<in> set (rests r s) \<Longrightarrow> s \<in> lang r"
  by (auto simp: rests_set)

lemma test_by_includes: "w \<in> lang r \<Longrightarrow> includes_js s w \<Longrightarrow> test r s"
  unfolding test_iff includes_js_iff by blast

lemmas rx_defs = test_def seq_def lit_def ws_def quote_def asc_def isWhiteSpace_def

lemma findFirst_None_iff: "findFirst s p = None \<longleftrightarrow> \<not> includes_js s p"
  by (induction s) auto

lemma findLast_None_iff: "findLast s p = None \<longleftrightarrow> \<not> includes_js s p"
  by (induction s) (auto split: option.splits)

lemma findFirst_Some:
  "findFirst s p = Some i \<Longrightarrow> i \<le> length s \<and> startsWith (drop i s) p"
proof (induction s arbitrary: i)
  case Nil
  then show ?case by (auto split: if_splits)
next
  case (Cons x xs)
  show ?case
  proof (cases "startsWith (x # xs) p")
    case True
    with Cons.prems show ?thesis by simp
  next
    case False
    with Cons.prems obtain j where j: "findFirst xs p = Some j" "i = Suc j" by auto
    from Cons.IH[OF j(1)] j(2) show ?thesis by simp
  qed
qed

lemma indexOf_cases:
  "indexOf s p from = - 1 \<or>
   (\<exists>i. indexOf s p from = int i \<and> i \<le> length s \<and> startsWith (drop i s) p)"
proof -
  define k where "k = (if from < 0 then 0 else min (nat from) (length s))"
  have k: "k \<le> length s" by (simp add: k_def)
  show ?thesis
  proof (cases "findFirst (drop k s) p")
    case None
    then have "indexOf s p from = - 1" by (simp add: indexOf_def k_def Let_def)
    then show ?thesis by simp
  next
    case (Some i)
    then have eq: "indexOf s p from = int (k + i)" by (simp add: indexOf_def k_def Let_def)
    from findFirst_Some[OF Some] have "i \<le> length s - k" "startsWith (drop (k + i) s) p"
      by (simp_all add: add.commute)
    with k eq show ?thesis by (intro disjI2 exI[of _ "k + i"]) simp
  qed
qed

lemma indexOf_absent: "\<not> includes_js s p \<Longrightarrow> indexOf s p from = - 1"
proof -
  assume n: "\<not> includes_js s p"
  have "findFirst (drop k s) p = None" for k
    using n includes_js_drop[of k s p] by (auto simp: findFirst_None_iff)
  then show ?thesis by (simp add: indexOf_def Let_def)
qed

lemma lastIndexOf_absent: "\<not> includes_js s p \<Longrightarrow> lastIndexOf s p = - 1"
  by (simp add: lastIndexOf_def findLast_None_iff[THEN iffD2])

lemma slice_prefix: "i < length s \<Longrightarrow> slice s 0 (int i + 1) = take (Suc i) s"
  by (simp add: slice_def relIndex_def nat_add_distrib min_def)

lemma sliceFrom_suffix: "i < length s \<Longrightarrow> sliceFrom s (int i + 1) = drop (Suc i) s"
  by (simp add: sliceFrom_def relIndex_def nat_add_distrib min_def)

section \<open>Occurrences and insertions\<close>

text \<open>An occurrence of \<open>m\<close> in \<open>X @ Y\<close> lies in \<open>X\<close>, lies in \<open>Y\<close>, or straddles the
  cut.\<close>

lemma occurrence_split:
  assumes "b @ m @ a = X @ Y"
  shows "(\<exists>q. X = b @ m @ q \<and> a = q @ Y)
       \<or> (\<exists>q. Y = q @ m @ a \<and> b = X @ q)
       \<or> (\<exists>m1 m2. m = m1 @ m2 \<and> m1 \<noteq> [] \<and> m2 \<noteq> [] \<and> X = b @ m1 \<and> Y = m2 @ a)"
proof -
  from assms obtain us where us:
    "(b = X @ us \<and> us @ m @ a = Y) \<or> (b @ us = X \<and> m @ a = us @ Y)"
    unfolding append_eq_append_conv2 by blast
  show ?thesis
  proof (cases "b = X @ us \<and> us @ m @ a = Y")
    case True
    then show ?thesis by auto
  next
    case False
    with us have A: "X = b @ us" "m @ a = us @ Y" by auto
    from A(2) obtain vs where vs:
      "(m = us @ vs \<and> vs @ a = Y) \<or> (m @ vs = us \<and> a = vs @ Y)"
      unfolding append_eq_append_conv2 by blast
    show ?thesis
    proof (cases "m @ vs = us \<and> a = vs @ Y")
      case True
      with A have "X = b @ m @ vs \<and> a = vs @ Y" by auto
      then show ?thesis by blast
    next
      case False
      with vs have B: "m = us @ vs" "Y = vs @ a" by auto
      show ?thesis
      proof (cases "us = []")
        case True
        with A B have "Y = [] @ m @ a \<and> b = X @ []" by simp
        then show ?thesis by blast
      next
        case ne: False
        show ?thesis
        proof (cases "vs = []")
          case True
          with A B have "X = b @ m @ [] \<and> a = [] @ Y" by simp
          then show ?thesis by blast
        next
          case False
          with ne A B show ?thesis by blast
        qed
      qed
    qed
  qed
qed

lemma includes_js_insert:
  assumes "includes_js (pre @ post) p" and "pre \<noteq> []" and "last pre \<notin> set p"
  shows "includes_js (pre @ ins @ post) p"
proof -
  from assms(1) obtain a b where ab: "pre @ post = a @ p @ b" by (auto simp: includes_js_iff)
  then obtain us where us:
    "(pre = a @ us \<and> us @ post = p @ b) \<or> (pre @ us = a \<and> post = us @ p @ b)"
    unfolding append_eq_append_conv2 by blast
  show ?thesis
  proof (cases "pre @ us = a \<and> post = us @ p @ b")
    case True
    then have "pre @ ins @ post = (pre @ ins @ us) @ p @ b" by simp
    then show ?thesis unfolding includes_js_iff by blast
  next
    case False
    with us have A: "pre = a @ us" "us @ post = p @ b" by auto
    from A(2) obtain vs where vs: "(us = p @ vs \<and> vs @ post = b) \<or> (us @ vs = p \<and> post = vs @ b)"
      unfolding append_eq_append_conv2 by blast
    show ?thesis
    proof (cases "us = []")
      case True
      with A have "pre @ ins @ post = (pre @ ins) @ p @ b" by simp
      then show ?thesis unfolding includes_js_iff by blast
    next
      case ne: False
      show ?thesis
      proof (cases "us @ vs = p \<and> post = vs @ b")
        case True
        have "last pre = last us" using A(1) ne by simp
        moreover have "last us \<in> set us" using ne by simp
        ultimately have "last pre \<in> set p" using True by auto
        with assms(3) show ?thesis by simp
      next
        case False
        with vs have "us = p @ vs" by auto
        then have "pre @ ins @ post = a @ p @ (vs @ ins @ post)" using A(1) by simp
        then show ?thesis unfolding includes_js_iff by blast
      qed
    qed
  qed
qed

lemma includes_js_insert_nostraddle:
  assumes "includes_js (P @ Q) p"
    and "\<And>p1 p2 x y. p = p1 @ p2 \<Longrightarrow> p1 \<noteq> [] \<Longrightarrow> p2 \<noteq> [] \<Longrightarrow> P = x @ p1 \<Longrightarrow> Q = p2 @ y
           \<Longrightarrow> False"
  shows "includes_js (P @ ins @ Q) p"
proof -
  from assms(1) obtain a b where ab: "a @ p @ b = P @ Q" by (auto simp: includes_js_iff)
  from occurrence_split[OF ab] consider
      q where "P = a @ p @ q"
    | q where "Q = q @ p @ b"
    | p1 p2 where "p = p1 @ p2" "p1 \<noteq> []" "p2 \<noteq> []" "P = a @ p1" "Q = p2 @ b"
    by blast
  then show ?thesis
  proof cases
    case 1
    then have "P @ ins @ Q = a @ p @ (q @ ins @ Q)" by simp
    then show ?thesis unfolding includes_js_iff by blast
  next
    case 2
    then have "P @ ins @ Q = (P @ ins @ q) @ p @ b" by simp
    then show ?thesis unfolding includes_js_iff by blast
  next
    case 3
    from assms(2)[OF 3] show ?thesis by simp
  qed
qed

text \<open>
  An occurrence of \<open>m\<close> in a text into which \<open>h @ core @ t\<close> was inserted is an
  occurrence in the original text, when \<open>m\<close> contains neither end of \<open>core\<close>, does
  not occur inside \<open>core\<close>, cannot end in \<open>h\<close> and cannot start in \<open>t\<close>.
\<close>

lemma occurrence_outside_insert:
  assumes eq: "b @ m @ a = pre @ h @ core @ t @ post"
    and m: "m \<noteq> []" and core: "core \<noteq> []"
    and hd_core: "hd core \<notin> set m" and last_core: "last core \<notin> set m"
    and inside: "\<not> includes_js core m"
    and last_m: "last m \<notin> set h" and hd_m: "hd m \<notin> set t"
  shows "includes_js (pre @ post) m"
proof -
  have eq1: "b @ m @ a = (pre @ h) @ (core @ t @ post)" using eq by simp
  from occurrence_split[OF eq1] consider
      q where "pre @ h = b @ m @ q"
    | q where "core @ t @ post = q @ m @ a"
    | m1 m2 where "m = m1 @ m2" "m1 \<noteq> []" "m2 \<noteq> []" "core @ t @ post = m2 @ a"
    by blast
  then show ?thesis
  proof cases
    case 1
    from occurrence_split[OF 1[symmetric]] consider
        q' where "pre = b @ m @ q'"
      | q' where "h = q' @ m @ q"
      | m1 m2 where "m = m1 @ m2" "m2 \<noteq> []" "h = m2 @ q"
      by blast
    then show ?thesis
    proof cases
      case 1
      then have "pre @ post = b @ m @ (q' @ post)" by simp
      then show ?thesis unfolding includes_js_iff by blast
    next
      case 2
      then have "last m \<in> set h" using m by auto
      with last_m show ?thesis by simp
    next
      case 3
      then have "last m = last m2" by simp
      then have "last m \<in> set h" using 3 by auto
      with last_m show ?thesis by simp
    qed
  next
    case 2
    have eq2: "q @ m @ a = core @ (t @ post)" using 2 by simp
    from occurrence_split[OF eq2] consider
        q' where "core = q @ m @ q'"
      | q' where "t @ post = q' @ m @ a"
      | m1 m2 where "m = m1 @ m2" "m1 \<noteq> []" "core = q @ m1"
      by blast
    then show ?thesis
    proof cases
      case 1
      then have "includes_js core m" unfolding includes_js_iff by blast
      with inside show ?thesis by simp
    next
      case 2
      from occurrence_split[OF 2[symmetric]] consider
          q'' where "t = q' @ m @ q''"
        | q'' where "post = q'' @ m @ a"
        | m1 m2 where "m = m1 @ m2" "m1 \<noteq> []" "t = q' @ m1"
        by blast
      then show ?thesis
      proof cases
        case 1
        then have "hd m \<in> set t" using m by (cases m) auto
        with hd_m show ?thesis by simp
      next
        case 2
        then have "pre @ post = (pre @ q'') @ m @ a" by simp
        then show ?thesis unfolding includes_js_iff by blast
      next
        case 3
        then have "hd m = hd m1" by simp
        then have "hd m \<in> set t" using 3 by (cases m1) auto
        with hd_m show ?thesis by simp
      qed
    next
      case 3
      then have "last core = last m1" by simp
      then have "last core \<in> set m" using 3 by auto
      with last_core show ?thesis by simp
    qed
  next
    case 3
    then have "hd core = hd m2" using core by (cases core; cases m2) auto
    then have "hd core \<in> set m" using 3 by (cases m2) auto
    with hd_core show ?thesis by simp
  qed
qed

lemma split_at_unique:
  assumes eq: "xs @ [c] @ ys = p1 @ p2" and ne: "p1 \<noteq> []" and l: "last p1 = c"
    and cx: "c \<notin> set xs" and cy: "c \<notin> set ys"
  shows "p1 = xs @ [c]"
proof -
  from ne l obtain q where p1: "p1 = q @ [c]" by (metis append_butlast_last_id)
  with eq have "xs @ c # ys = q @ c # p2" by simp
  then obtain us where us: "(xs = q @ us \<and> us @ c # ys = c # p2) \<or> (xs @ us = q \<and> c # ys = us @ c # p2)"
    unfolding append_eq_append_conv2 by blast
  show ?thesis
  proof (cases us)
    case Nil
    with us p1 show ?thesis by auto
  next
    case (Cons z zs)
    with us have "(xs = q @ z # zs \<and> z = c) \<or> (z = c \<and> ys = zs @ c # p2)" by auto
    with cx cy show ?thesis by auto
  qed
qed

section \<open>The words of the anchors\<close>

lemma lang_fullPattern_last: "m \<in> lang fullPattern \<Longrightarrow> m \<noteq> [] \<and> last m = 123"
  by (auto simp: fullPattern_def lang_seq_Cons lang_seq_Nil lang_lit asc_def)

lemma lang_fullPattern_tail:
  assumes "m \<in> lang fullPattern"
  shows "\<exists>u w. m = u @ asc ''=>'' @ w @ asc ''{'' \<and> (\<forall>x \<in> set w. isWhiteSpace x)"
proof -
  have eq: "fullPattern =
    seq ([lit ''deliver:'', ws, lit ''async'', ws, lit ''('', Rep (NoneOf (asc '')'')),
          lit '')'', ws, Opt (seq [lit '':'', ws, Rep1 (NoneOf (asc ''=''))]), ws]
         @ [lit ''=>'', ws, lit ''{''])"
    by (simp add: fullPattern_def)
  from assms[unfolded eq lang_seq_append] obtain u v
    where uv: "m = u @ v" "v \<in> lang (seq [lit ''=>'', ws, lit ''{''])"
    by blast
  from uv(2) obtain w where "v = asc ''=>'' @ w @ asc ''{''" "\<forall>x \<in> set w. isWhiteSpace x"
    by (auto simp: lang_seq_Cons lang_seq_Nil lang_lit lang_ws)
  with uv(1) show ?thesis by blast
qed

lemma lang_importAnchor_last:
  assumes "m \<in> lang importAnchor"
  shows "m \<noteq> [] \<and> (last m = 34 \<or> last m = 39)"
proof -
  have eq: "importAnchor =
    seq ([lit ''import'', ws, lit ''{'', Rep (NoneOf (asc ''}'')),
          lit ''sendMarkdownCardFeishu'', Rep (NoneOf (asc ''}'')), lit ''}'', ws,
          lit ''from'', ws, quote, lit ''./send.js''] @ [quote])"
    by (simp add: importAnchor_def)
  from assms[unfolded eq lang_seq_append] obtain u v where "m = u @ v" "v \<in> lang (seq [quote])"
    by blast
  then show ?thesis by (auto simp: lang_seq_Cons lang_seq_Nil lang_quote)
qed


lemma import_line_in_lang:
  "asc ''import { sendMediaFeishu } from \"./media.js\"'' \<in> lang MEDIA_IMPORT_PATTERN"
  by (rule lang_by_rests) (simp add: MEDIA_IMPORT_PATTERN_def rx_defs)

lemma call_in_lang: "asc ''await sendMediaFeishu('' \<in> lang SEND_MEDIA_CALL_PATTERN"
  by (rule lang_by_rests) (simp add: SEND_MEDIA_CALL_PATTERN_def rx_defs)

lemma MEDIA_IMPORT_includes:
  "includes_js MEDIA_IMPORT (asc ''sendMediaFeishu'')" "includes_js MEDIA_IMPORT (asc ''./media.js'')"
  by (simp_all add: MEDIA_IMPORT_def asc_def)

lemma MEDIA_LOGIC_includes:
  "includes_js MEDIA_LOGIC (asc ''payload.mediaUrls?.length'')"
  "includes_js MEDIA_LOGIC (asc ''sendMediaFeishu'')"
  "includes_js MEDIA_LOGIC (asc ''await sendMediaFeishu'')"
  "includes_js MEDIA_LOGIC (asc ''openclaw-feishu-media-fixer'')"
  by (simp_all add: MEDIA_LOGIC_def asc_def)

lemma MEDIA_LOGIC_includes_call: "includes_js MEDIA_LOGIC (asc ''await sendMediaFeishu('')"
  by (simp add: MEDIA_LOGIC_def asc_def)

section \<open>The insertion steps\<close>


lemma addImport_Inr:
  assumes "addImport t = Inr t1"
  shows "(t1 = t \<and> includes_js t (asc ''sendMediaFeishu'') \<and> includes_js t (asc ''./media.js''))
       \<or> (\<not> (includes_js t (asc ''sendMediaFeishu'') \<and> includes_js t (asc ''./media.js''))
          \<and> (\<exists>b m a. t = b @ m @ a \<and> m \<in> lang importAnchor
                       \<and> t1 = (b @ m) @ (asc ''\<newline>'' @ MEDIA_IMPORT) @ a))
       \<or> (\<not> (includes_js t (asc ''sendMediaFeishu'') \<and> includes_js t (asc ''./media.js''))
          \<and> (\<exists>pre post. t = (pre @ [10]) @ post
                       \<and> t1 = (pre @ [10]) @ (MEDIA_IMPORT @ asc ''\<newline>'') @ post))"
proof (cases "includes_js t (asc ''sendMediaFeishu'') \<and> includes_js t (asc ''./media.js'')")
  case True
  with assms show ?thesis by (simp add: addImport_def)
next
  case skip: False
  show ?thesis
  proof (cases "test importAnchor t")
    case True
    then obtain b m a where ex: "exec importAnchor t = Some (b, m, a)"
      by (auto simp: test_def)
    from exec_Some[OF ex] have "t = b @ m @ a" "m \<in> lang importAnchor" by auto
    moreover have "t1 = (b @ m) @ (asc ''\<newline>'' @ MEDIA_IMPORT) @ a"
      using assms skip True ex by (auto simp: addImport_def replace_def)
    ultimately show ?thesis using skip by blast
  next
    case False
    define k where "k = indexOf t (asc ''\<newline>'') (lastIndexOf t (asc ''import ''))"
    have k1: "k \<noteq> - 1" using assms skip False
      by (auto simp: addImport_def Let_def k_def split: if_splits)
    have t1: "t1 = slice t 0 (k + 1) @ MEDIA_IMPORT @ asc ''\<newline>'' @ sliceFrom t (k + 1)"
      using assms skip False k1 by (auto simp: addImport_def Let_def k_def split: if_splits)
    from indexOf_cases[of t "asc ''\<newline>''" "lastIndexOf t (asc ''import '')"] k1
    obtain i where i: "k = int i" "i \<le> length t" "startsWith (drop i t) (asc ''\<newline>'')"
      unfolding k_def by auto
    from i(3) obtain r where r: "drop i t = 10 # r" by (auto simp: startsWith_iff asc_def)
    then have il: "i < length t" using i(2) by (cases "i = length t") auto
    have d: "drop (Suc i) t = r" using r by (metis drop_Suc tl_drop list.sel(3))
    have tk: "take (Suc i) t = take i t @ [10]"
      using il r by (metis take_Suc_conv_app_nth hd_drop_conv_nth list.sel(1))
    have "t = (take i t @ [10]) @ r" using tk d by (metis append_take_drop_id)
    moreover have "t1 = (take i t @ [10]) @ (MEDIA_IMPORT @ asc ''\<newline>'') @ r"
      using t1 i(1) il tk d by (simp add: slice_prefix sliceFrom_suffix)
    ultimately show ?thesis using skip by blast
  qed
qed

lemma addMediaLogic_Inl:
  "addMediaLogic t = Inl e \<Longrightarrow> \<exists>m. e = FixerException PATCH_FAILED m"
  by (auto simp: addMediaLogic_def split: if_splits)

lemma addMediaLogic_Inr:
  assumes "addMediaLogic t = Inr t2"
  shows "(t2 = t \<and> includes_js t (asc ''payload.mediaUrls?.length''))
       \<or> (\<not> includes_js t (asc ''payload.mediaUrls?.length'') \<and> test deliverAnchor t
          \<and> (\<exists>b m a. t = b @ m @ a \<and> m \<in> lang fullPattern \<and> t2 = (b @ m) @ MEDIA_LOGIC @ a))"
proof (cases "includes_js t (asc ''payload.mediaUrls?.length'')")
  case True
  with assms show ?thesis by (simp add: addMediaLogic_def)
next
  case False
  with assms have d: "test deliverAnchor t" and f: "test fullPattern t"
    by (auto simp: addMediaLogic_def split: if_splits)
  from f obtain b m a where ex: "exec fullPattern t = Some (b, m, a)" by (auto simp: test_def)
  from exec_Some[OF ex] have "t = b @ m @ a" "m \<in> lang fullPattern" by auto
  moreover have "t2 = (b @ m) @ MEDIA_LOGIC @ a"
    using assms False d f ex by (auto simp: addMediaLogic_def replace_def)
  ultimately show ?thesis using False d by blast
qed

lemma addImport_includes:
  assumes "addImport t = Inr t1"
  shows "includes_js t1 (asc ''sendMediaFeishu'') \<and> includes_js t1 (asc ''./media.js'')"
proof -
  have ins: "includes_js (x @ MEDIA_IMPORT @ y) (asc ''sendMediaFeishu'')
             \<and> includes_js (x @ MEDIA_IMPORT @ y) (asc ''./media.js'')" for x y
    using MEDIA_IMPORT_includes by (simp add: includes_js_appendI)
  from addImport_Inr[OF assms] show ?thesis
  proof (elim disjE conjE exE)
    assume "t1 = t" "includes_js t (asc ''sendMediaFeishu'')" "includes_js t (asc ''./media.js'')"
    then show ?thesis by simp
  next
    fix b m a assume "t1 = (b @ m) @ (asc ''\<newline>'' @ MEDIA_IMPORT) @ a"
    then show ?thesis using ins[of "b @ m @ asc ''\<newline>''" a] by simp
  next
    fix pre post assume "t1 = (pre @ [10]) @ (MEDIA_IMPORT @ asc ''\<newline>'') @ post"
    then show ?thesis using ins[of "pre @ [10]" "asc ''\<newline>'' @ post"] by simp
  qed
qed

lemma addMediaLogic_includes:
  assumes "addMediaLogic t1 = Inr t2"
    and "includes_js t1 (asc ''sendMediaFeishu'')" and "includes_js t1 (asc ''./media.js'')"
  shows "includes_js t2 (asc ''sendMediaFeishu'') \<and> includes_js t2 (asc ''./media.js'')
         \<and> includes_js t2 (asc ''payload.mediaUrls?.length'')"
proof -
  from addMediaLogic_Inr[OF assms(1)] show ?thesis
  proof (elim disjE conjE exE)
    assume "t2 = t1" "includes_js t1 (asc ''payload.mediaUrls?.length'')"
    then show ?thesis using assms by simp
  next
    fix b m a
    assume t1: "t1 = b @ m @ a" and m: "m \<in> lang fullPattern"
      and t2: "t2 = (b @ m) @ MEDIA_LOGIC @ a"
    from lang_fullPattern_last[OF m] have ne: "b @ m \<noteq> []" and l: "last (b @ m) = 123" by auto
    have "123 \<notin> set (asc ''./media.js'')" by (simp add: asc_def)
    with l have "last (b @ m) \<notin> set (asc ''./media.js'')" by simp
    moreover have "includes_js ((b @ m) @ a) (asc ''./media.js'')" using assms(3) t1 by simp
    ultimately have "includes_js t2 (asc ''./media.js'')"
      unfolding t2 using ne by (intro includes_js_insert)
    moreover have "includes_js t2 (asc ''sendMediaFeishu'')"
      "includes_js t2 (asc ''payload.mediaUrls?.length'')"
      unfolding t2
      using includes_js_appendI[OF MEDIA_LOGIC_includes(2), of "b @ m" a]
        includes_js_appendI[OF MEDIA_LOGIC_includes(1), of "b @ m" a]
      by simp_all
    ultimately show ?thesis by simp
  qed
qed

lemma addImport_shape:
  assumes "addImport t = Inr t1"
  shows "t1 = t
       \<or> (\<exists>P Q h tl. t = P @ Q \<and> P \<noteq> [] \<and> (last P = 10 \<or> last P = 34 \<or> last P = 39)
            \<and> t1 = P @ h @ asc ''{ sendMediaFeishu } from \"./media.js\";'' @ tl @ Q
            \<and> set h \<subseteq> set (asc ''\<newline>import '') \<and> set tl \<subseteq> {10}
            \<and> \<not> (includes_js t (asc ''sendMediaFeishu'') \<and> includes_js t (asc ''./media.js'')))"
proof -
  from addImport_Inr[OF assms] show ?thesis
  proof (elim disjE conjE exE)
    assume "t1 = t"
    then show ?thesis by simp
  next
    fix b m a
    assume skip: "\<not> (includes_js t (asc ''sendMediaFeishu'') \<and> includes_js t (asc ''./media.js''))"
      and t: "t = b @ m @ a" and m: "m \<in> lang importAnchor"
      and t1: "t1 = (b @ m) @ (asc ''\<newline>'' @ MEDIA_IMPORT) @ a"
    from lang_importAnchor_last[OF m] have "b @ m \<noteq> []"
      "last (b @ m) = 34 \<or> last (b @ m) = 39" by auto
    moreover have "t = (b @ m) @ a" using t by simp
    moreover have "t1 = (b @ m) @ asc ''\<newline>import '' @ asc ''{ sendMediaFeishu } from \"./media.js\";'' @ [] @ a"
      using t1 by (simp add: MEDIA_IMPORT_def asc_def)
    ultimately show ?thesis using skip by (intro disjI2 exI[of _ "b @ m"] exI[of _ a]
        exI[of _ "asc ''\<newline>import ''"] exI[of _ "[]"]) simp
  next
    fix pre post
    assume skip: "\<not> (includes_js t (asc ''sendMediaFeishu'') \<and> includes_js t (asc ''./media.js''))"
      and t: "t = (pre @ [10]) @ post"
      and t1: "t1 = (pre @ [10]) @ (MEDIA_IMPORT @ asc ''\<newline>'') @ post"
    have "t1 = (pre @ [10]) @ asc ''import '' @ asc ''{ sendMediaFeishu } from \"./media.js\";'' @ asc ''\<newline>'' @ post"
      using t1 by (simp add: MEDIA_IMPORT_def asc_def)
    then show ?thesis using skip t by (intro disjI2 exI[of _ "pre @ [10]"] exI[of _ post]
        exI[of _ "asc ''import ''"] exI[of _ "asc ''\<newline>''"]) (simp add: asc_def)
  qed
qed

text \<open>The import step creates no occurrence of a word that contains neither
  \<open>{\<close> nor \<open>;\<close>, does not end in a character of \<open>import\<close>, a space or a line feed,
  does not start with a line feed, and does not occur in the inserted line.\<close>

lemma addImport_creates_no:
  assumes "addImport t = Inr t1" and occ: "t1 = x @ m @ y"
    and m: "m \<noteq> []" "123 \<notin> set m" "59 \<notin> set m"
      "last m \<notin> set (asc ''\<newline>import '')" "hd m \<noteq> 10"
      "\<not> includes_js (asc ''{ sendMediaFeishu } from \"./media.js\";'') m"
  shows "includes_js t m"
proof (cases "t1 = t")
  case True
  then show ?thesis using occ unfolding includes_js_iff by blast
next
  case False
  with addImport_shape[OF assms(1)] obtain P Q h tl where t: "t = P @ Q"
    and t1: "t1 = P @ h @ asc ''{ sendMediaFeishu } from \"./media.js\";'' @ tl @ Q"
    and h: "set h \<subseteq> set (asc ''\<newline>import '')" and tl: "set tl \<subseteq> {10}"
    by blast
  have eq: "x @ m @ y = P @ h @ asc ''{ sendMediaFeishu } from \"./media.js\";'' @ tl @ Q"
    using occ t1 by simp
  have "includes_js (P @ Q) m"
  proof (rule occurrence_outside_insert[OF eq m(1)])
    show "asc ''{ sendMediaFeishu } from \"./media.js\";'' \<noteq> []" by (simp add: asc_def)
    show "hd (asc ''{ sendMediaFeishu } from \"./media.js\";'') \<notin> set m"
      using m(2) by (simp add: asc_def)
    show "last (asc ''{ sendMediaFeishu } from \"./media.js\";'') \<notin> set m"
      using m(3) by (simp add: asc_def)
    show "\<not> includes_js (asc ''{ sendMediaFeishu } from \"./media.js\";'') m" by (rule m(6))
    show "last m \<notin> set h" using m(4) h by blast
    show "hd m \<notin> set tl" using m(5) tl by blast
  qed
  then show ?thesis using t by simp
qed


lemma addImport_keeps_no_logic:
  assumes "addImport t = Inr t1" and "\<not> includes_js t (asc ''payload.mediaUrls?.length'')"
  shows "\<not> includes_js t1 (asc ''payload.mediaUrls?.length'')"
proof
  assume "includes_js t1 (asc ''payload.mediaUrls?.length'')"
  then obtain x y where "t1 = x @ asc ''payload.mediaUrls?.length'' @ y"
    by (auto simp: includes_js_iff)
  from addImport_creates_no[OF assms(1) this] assms(2) show False by (simp add: asc_def)
qed



lemma addImport_inserts_line:
  assumes "addImport t = Inr t1"
    and "\<not> (includes_js t (asc ''sendMediaFeishu'') \<and> includes_js t (asc ''./media.js''))"
  shows "includes_js t1 (asc ''import { sendMediaFeishu } from \"./media.js\"'')"
proof -
  have i: "includes_js MEDIA_IMPORT (asc ''import { sendMediaFeishu } from \"./media.js\"'')"
    by (simp add: MEDIA_IMPORT_def asc_def)
  from addImport_Inr[OF assms(1)] assms(2) consider
      b m a where "t1 = (b @ m) @ (asc ''\<newline>'' @ MEDIA_IMPORT) @ a"
    | pre post where "t1 = (pre @ [10]) @ (MEDIA_IMPORT @ asc ''\<newline>'') @ post"
    by blast
  then show ?thesis
  proof cases
    case 1
    then show ?thesis using includes_js_appendI[OF i, of "b @ m @ asc ''\<newline>''" a] by simp
  next
    case 2
    then show ?thesis using includes_js_appendI[OF i, of "pre @ [10]" "asc ''\<newline>'' @ post"]
      by simp
  qed
qed

lemma import_line_survives_logic:
  assumes inc: "includes_js (b @ m @ a) (asc ''import { sendMediaFeishu } from \"./media.js\"'')"
    and m: "m \<in> lang fullPattern"
  shows "includes_js ((b @ m) @ MEDIA_LOGIC @ a) (asc ''import { sendMediaFeishu } from \"./media.js\"'')"
proof (rule includes_js_insert_nostraddle)
  show "includes_js ((b @ m) @ a) (asc ''import { sendMediaFeishu } from \"./media.js\"'')"
    using inc by simp
next
  fix p1 p2 x y
  assume p: "asc ''import { sendMediaFeishu } from \"./media.js\"'' = p1 @ p2"
    and ne: "p1 \<noteq> []" "p2 \<noteq> []" and P: "b @ m = x @ p1"
  from lang_fullPattern_tail[OF m] obtain u w
    where mw: "m = u @ asc ''=>'' @ w @ asc ''{''" and w: "\<forall>c \<in> set w. isWhiteSpace c" by blast
  have nws: "\<not> isWhiteSpace 116" by (simp add: isWhiteSpace_def)
  have "last (b @ m) = 123" using mw by (simp add: asc_def)
  then have l: "last p1 = 123" using P ne by simp
  have "asc ''import '' @ [123] @ asc '' sendMediaFeishu } from \"./media.js\"'' = p1 @ p2"
    using p by (simp add: asc_def)
  from split_at_unique[OF this ne(1) l] have p1: "p1 = asc ''import '' @ [123]"
    by (simp add: asc_def)
  with P mw have eq: "b @ u @ [61, 62] @ w = x @ asc ''import ''" by (simp add: asc_def)
  show False
  proof (cases w rule: rev_cases)
    case Nil
    with eq have "(b @ u @ [61]) @ [62] = (x @ asc ''import'') @ [32]" by (simp add: asc_def)
    then show False by (simp only: append1_eq_conv) simp
  next
    case (snoc w' c)
    with eq have "(b @ u @ [61, 62] @ w') @ [c] = (x @ asc ''import'') @ [32]"
      by (simp add: asc_def)
    then have eq': "b @ u @ [61, 62] @ w' = x @ asc ''import''" by (simp only: append1_eq_conv)
    show False
    proof (cases w' rule: rev_cases)
      case Nil
      with eq' have "(b @ u @ [61]) @ [62] = (x @ asc ''impor'') @ [116]" by (simp add: asc_def)
      then show False by (simp only: append1_eq_conv) simp
    next
      case (snoc w'' c')
      with eq' have "(b @ u @ [61, 62] @ w'') @ [c'] = (x @ asc ''impor'') @ [116]"
        by (simp add: asc_def)
      then have "c' = 116" by (simp only: append1_eq_conv)
      moreover have "c' \<in> set w" using snoc \<open>w = w' @ [c]\<close> by simp
      ultimately show False using w nws by blast
    qed
  qed
qed

text \<open>When neither step is skipped, the text that passes both steps matches the
  three marker patterns of the detector.\<close>

lemma both_steps_give_markers:
  assumes a1: "addImport t = Inr t1" and a2: "addMediaLogic t1 = Inr t2"
    and n1: "\<not> (includes_js t (asc ''sendMediaFeishu'') \<and> includes_js t (asc ''./media.js''))"
    and n2: "\<not> includes_js t (asc ''payload.mediaUrls?.length'')"
  shows "test MEDIA_IMPORT_PATTERN t2 \<and> test MEDIA_LOGIC_PATTERN t2
         \<and> test SEND_MEDIA_CALL_PATTERN t2"
proof -
  from addImport_keeps_no_logic[OF a1 n2] addMediaLogic_Inr[OF a2]
  obtain b m a where t1: "t1 = b @ m @ a" and m: "m \<in> lang fullPattern"
    and t2: "t2 = (b @ m) @ MEDIA_LOGIC @ a" by blast
  from addImport_inserts_line[OF a1 n1] t1
  have "includes_js (b @ m @ a) (asc ''import { sendMediaFeishu } from \"./media.js\"'')" by simp
  from import_line_survives_logic[OF this m]
  have "test MEDIA_IMPORT_PATTERN t2"
    unfolding t2 by (rule test_by_includes[OF import_line_in_lang])
  moreover have "includes_js t2 (asc ''payload.mediaUrls?.length'')"
    unfolding t2 using includes_js_appendI[OF MEDIA_LOGIC_includes(1), of "b @ m" a] by simp
  then have "test MEDIA_LOGIC_PATTERN t2" by (simp add: MEDIA_LOGIC_PATTERN_def test_lit)
  moreover have "includes_js t2 (asc ''await sendMediaFeishu('')"
    unfolding t2 using includes_js_appendI[OF MEDIA_LOGIC_includes_call, of "b @ m" a] by simp
  then have "test SEND_MEDIA_CALL_PATTERN t2" by (rule test_by_includes[OF call_in_lang])
  ultimately show ?thesis by simp
qed

section \<open>The file system, the backup store and apply\<close>

lemma create_Inr:
  assumes "create join dir now s p = Inr (b, s1)"
  shows "\<exists>d. files s p = Some d \<and> read_error s p = None
             \<and> b = join dir (backupFileName now p) \<and> write_error s b = None
             \<and> s1 = s\<lparr>files := (files s)(b \<mapsto> d)\<rparr>"
  using assms
  by (auto simp: create_def existsSync_def copyFileSync_def readFileSync_def writeFileSync_def
      Let_def split: if_splits option.splits sum.splits)

lemma create_Inl:
  assumes "create join dir now s p = Inl e" and "existsSync s p"
  shows "\<exists>m. e = FixerException PERMISSION_DENIED m"
  using assms by (auto simp: create_def Let_def split: if_splits sum.splits)

lemma restore_Inr:
  assumes "restore s b p = Inr s2"
  shows "\<exists>d. files s b = Some d \<and> read_error s b = None \<and> write_error s p = None
             \<and> s2 = s\<lparr>files := (files s)(p \<mapsto> d)\<rparr>"
  using assms
  by (auto simp: restore_def existsSync_def copyFileSync_def readFileSync_def writeFileSync_def
      split: if_splits option.splits sum.splits)

lemma restore_Inl:
  assumes "restore s b p = Inl e" and "existsSync s b"
  shows "\<exists>m. e = FixerException PERMISSION_DENIED m"
  using assms by (auto simp: restore_def split: if_splits sum.splits)



lemma patchAndWrite_Inr:
  assumes "patchAndWrite s1 f content = Inr s'"
  shows "\<exists>c1 c2. addImport content = Inr c1 \<and> addMediaLogic c1 = Inr c2 \<and> verify c2
                 \<and> writeFileSync s1 f c2 = Inr s'"
  using assms by (auto simp: patchAndWrite_def split: sum.splits if_splits)




lemma apply_patch_success:
  assumes ap: "apply_patch join dir now s r nb = (out, s')" and ok: "success out"
  shows "\<exists>f content s1. targetFile r = Some f \<and> f \<noteq> [] \<and> hasProblem r
           \<and> readFileSync s f = Inr content \<and> read_error s1 f = None
           \<and> patchAndWrite s1 f content = Inr s'"
proof -
  have t: "truthy (targetFile r)" and hp: "hasProblem r"
    using ap ok by (auto simp: apply_patch_def failure_def split: if_splits)
  then obtain f where f: "targetFile r = Some f" "f \<noteq> []"
    by (auto simp: truthy_def split: option.splits)
  have ex: "existsSync s f"
    using ap ok t hp f by (auto simp: apply_patch_def failure_def Let_def split: if_splits)
  obtain content where rd: "readFileSync s f = Inr content"
    using ap ok t hp f ex
    by (cases "readFileSync s f") (auto simp: apply_patch_def failure_def Let_def)
  then have re: "read_error s f = None"
    by (auto simp: readFileSync_def split: option.splits)
  show ?thesis
  proof (cases nb)
    case True
    then have "patchAndWrite s f content = Inr s'"
      using ap ok t hp f ex rd
      by (cases "patchAndWrite s f content") (auto simp: apply_patch_def failure_def Let_def)
    with f hp rd re show ?thesis by blast
  next
    case False
    show ?thesis
    proof (cases "create join dir now s f")
      case (Inl e)
      then show ?thesis using ap ok t hp f ex rd False
        by (auto simp: apply_patch_def failure_def Let_def)
    next
      case (Inr p)
      obtain b s1 where p: "p = (b, s1)" by (cases p)
      note c = Inr[unfolded p]
      from create_Inr[OF c] have re1: "read_error s1 f = None" using re by auto
      have "patchAndWrite s1 f content = Inr s'"
        using ap ok t hp f ex rd False c
        by (cases "patchAndWrite s1 f content") (auto simp: apply_patch_def failure_def Let_def)
      with f hp rd re1 show ?thesis by blast
    qed
  qed
qed


section \<open>The example inputs\<close>

lemma fs_one_simps:
  "existsSync (fs_one p d) p" "readFileSync (fs_one p d) p = Inr d"
  by (simp_all add: existsSync_def readFileSync_def fs_one_def)

lemma report_of_simps:
  "targetFile (report_of d) = Some (asc ''/t.ts'')"
  "hasProblem (report_of d) \<longleftrightarrow>
     \<not> (test MEDIA_IMPORT_PATTERN d \<and> test MEDIA_LOGIC_PATTERN d \<and> test SEND_MEDIA_CALL_PATTERN d)"
  by (auto simp: report_of_def check_def truthy_def asc_def readFileSync_def fs_one_def Let_def)

lemma create_fs_one:
  "create join_simple (asc ''/b'') (asc ''2026-02-10T12:34:56.789Z'') (fs_one (asc ''/t.ts'') d)
     (asc ''/t.ts'')
   = Inr (asc ''/b/t.ts.backup-2026-02-10T12-34-56-789Z'',
          \<lparr>files = [asc ''/t.ts'' \<mapsto> d, asc ''/b/t.ts.backup-2026-02-10T12-34-56-789Z'' \<mapsto> d],
           read_error = Map.empty, write_error = Map.empty\<rparr>)"
  by (simp add: create_def existsSync_def fs_one_def copyFileSync_def readFileSync_def
      writeFileSync_def backupFileName_def basename_def replaceEach_def join_simple_def asc_def
      Let_def)

lemma test_patched:
  "test MEDIA_IMPORT_PATTERN text_patched" "test MEDIA_LOGIC_PATTERN text_patched"
  "test SEND_MEDIA_CALL_PATTERN text_patched"
  by (simp_all add: text_patched_def MEDIA_IMPORT_PATTERN_def MEDIA_LOGIC_PATTERN_def
      SEND_MEDIA_CALL_PATTERN_def rx_defs)

lemma test_no_call:
  "test MEDIA_LOGIC_PATTERN text_no_call" "\<not> test SEND_MEDIA_CALL_PATTERN text_no_call"
  "\<not> test MEDIA_IMPORT_PATTERN text_no_call"
  by (simp_all add: text_no_call_def MEDIA_IMPORT_PATTERN_def MEDIA_LOGIC_PATTERN_def
      SEND_MEDIA_CALL_PATTERN_def rx_defs)

lemma report_of_text_host:
  "targetFile (report_of text_host) = Some (asc ''/t.ts'')"
  "hasProblem (report_of text_host)"
  by (simp_all add: report_of_simps text_host_def MEDIA_IMPORT_PATTERN_def rx_defs)

lemma text_host_unpatched:
  "\<not> (includes_js text_host (asc ''sendMediaFeishu'') \<and> includes_js text_host (asc ''./media.js''))"
  "\<not> includes_js text_host (asc ''payload.mediaUrls?.length'')"
  by (simp_all add: text_host_def asc_def)

lemma addImport_text_host:
  \<open>addImport text_host
     = Inr (asc ''import { sendMarkdownCardFeishu } from "./send.js"'' @ asc ''\<newline>'' @ MEDIA_IMPORT
            @ asc '';\<newline>deliver: async (payload: ReplyPayload) => {\<newline>}'')\<close>
  by (simp add: addImport_def text_host_def importAnchor_def replace_def rx_defs MEDIA_IMPORT_def)

lemma addMediaLogic_text_host:
  \<open>addMediaLogic (asc ''import { sendMarkdownCardFeishu } from "./send.js"'' @ asc ''\<newline>''
       @ MEDIA_IMPORT @ asc '';\<newline>deliver: async (payload: ReplyPayload) => {\<newline>}'')
     = Inr (asc ''import { sendMarkdownCardFeishu } from "./send.js"'' @ asc ''\<newline>'' @ MEDIA_IMPORT
            @ asc '';\<newline>deliver: async (payload: ReplyPayload) => {'' @ MEDIA_LOGIC
            @ asc ''\<newline>}'')\<close>
  by (simp add: addMediaLogic_def deliverAnchor_def fullPattern_def replace_def rx_defs
      MEDIA_IMPORT_def)

lemma verify_text_host_patched: "verify text_host_patched"
  by (simp add: verify_def text_host_patched_def MEDIA_IMPORT_def MEDIA_LOGIC_def asc_def)

lemma apply_patch_text_host:
  "apply_patch join_simple (asc ''/b'') (asc ''2026-02-10T12:34:56.789Z'')
     (fs_one (asc ''/t.ts'') text_host) (report_of text_host) False
   = (\<lparr>success = True, message = msg_patch_applied,
       backupPath = Some (asc ''/b/t.ts.backup-2026-02-10T12-34-56-789Z''),
       error = None, errors = []\<rparr>,
      \<lparr>files = [asc ''/t.ts'' \<mapsto> text_host,
                 asc ''/b/t.ts.backup-2026-02-10T12-34-56-789Z'' \<mapsto> text_host,
                 asc ''/t.ts'' \<mapsto> text_host_patched],
       read_error = Map.empty, write_error = Map.empty\<rparr>)"
proof -
  have ne: "asc ''/t.ts'' \<noteq> []" by (simp add: asc_def)
  show ?thesis
    using report_of_text_host addImport_text_host addMediaLogic_text_host
      verify_text_host_patched ne
    by (simp add: apply_patch_def truthy_def create_fs_one patchAndWrite_def writeFileSync_def
        fs_one_simps Let_def text_host_patched_def)
qed

lemma report_of_text_mention:
  "targetFile (report_of text_mention) = Some (asc ''/t.ts'')"
  "hasProblem (report_of text_mention)"
  by (simp_all add: report_of_simps text_mention_def MEDIA_IMPORT_PATTERN_def rx_defs)

lemma patch_text_mention:
  "addImport text_mention = Inr text_mention"
  "addMediaLogic text_mention = Inr text_mention_patched"
  by (simp_all add: addImport_def addMediaLogic_def text_mention_def text_mention_patched_def
      deliverAnchor_def fullPattern_def replace_def rx_defs)

lemma verify_text_mention_patched: "verify text_mention_patched"
  by (simp add: verify_def text_mention_patched_def MEDIA_LOGIC_def asc_def)

lemma no_import_in_text_mention_patched: "\<not> test MEDIA_IMPORT_PATTERN text_mention_patched"
  by (simp add: text_mention_patched_def MEDIA_LOGIC_def MEDIA_IMPORT_PATTERN_def rx_defs)







section \<open>Claim C1: detection after a successful apply\<close>

text \<open>
  Claim C1. When \<^verbatim>\<open>apply\<close> returns success on a report with a target file and a
  problem, detection on the resulting file reports no problem. The code does not
  keep this on a host file that names the helper and its module in a comment
  only. The guard of the import step and \<^verbatim>\<open>verify\<close> look for the two substrings
  \<^verbatim>\<open>sendMediaFeishu\<close> and \<^verbatim>\<open>./media.js\<close> anywhere in the text, where their own comments
  speak of the import and the detector matches the import statement. On that file
  the import step is skipped, the logic block is inserted, \<^verbatim>\<open>verify\<close> passes and
  \<^verbatim>\<open>apply\<close> returns success; the written file holds no import of the helper and
  detection on it still reports a problem.
\<close>

theorem apply_success_still_problem:
  "targetFile (report_of text_mention) = Some (asc ''/t.ts'') \<and> hasProblem (report_of text_mention)
   \<and> addImport text_mention = Inr text_mention
   \<and> addMediaLogic text_mention = Inr text_mention_patched
   \<and> verify text_mention_patched
   \<and> success (fst (apply_patch join_simple (asc ''/b'') (asc ''2026-02-10T12:34:56.789Z'')
        (fs_one (asc ''/t.ts'') text_mention) (report_of text_mention) False))
   \<and> readFileSync (snd (apply_patch join_simple (asc ''/b'') (asc ''2026-02-10T12:34:56.789Z'')
        (fs_one (asc ''/t.ts'') text_mention) (report_of text_mention) False)) (asc ''/t.ts'')
       = Inr text_mention_patched
   \<and> \<not> test MEDIA_IMPORT_PATTERN text_mention_patched
   \<and> hasProblem (check (snd (apply_patch join_simple (asc ''/b'')
          (asc ''2026-02-10T12:34:56.789Z'') (fs_one (asc ''/t.ts'') text_mention)
          (report_of text_mention) False)) (Some (asc ''/oc'')) None (Some (asc ''/t.ts'')))"
proof -
  have ne: "asc ''/t.ts'' \<noteq> []" by (simp add: asc_def)
  have tr: "truthy (Some (asc ''/oc''))" by (simp add: truthy_def asc_def)
  have c: "apply_patch join_simple (asc ''/b'') (asc ''2026-02-10T12:34:56.789Z'')
     (fs_one (asc ''/t.ts'') text_mention) (report_of text_mention) False
   = (\<lparr>success = True, message = msg_patch_applied,
       backupPath = Some (asc ''/b/t.ts.backup-2026-02-10T12-34-56-789Z''),
       error = None, errors = []\<rparr>,
      \<lparr>files = [asc ''/t.ts'' \<mapsto> text_mention,
                 asc ''/b/t.ts.backup-2026-02-10T12-34-56-789Z'' \<mapsto> text_mention,
                 asc ''/t.ts'' \<mapsto> text_mention_patched],
       read_error = Map.empty, write_error = Map.empty\<rparr>)"
    using report_of_text_mention patch_text_mention verify_text_mention_patched ne
    by (simp add: apply_patch_def truthy_def create_fs_one patchAndWrite_def writeFileSync_def
        fs_one_simps Let_def)
  show ?thesis
    using report_of_text_mention patch_text_mention verify_text_mention_patched
      no_import_in_text_mention_patched ne tr
    by (simp add: c check_def readFileSync_def Let_def)
qed

text \<open>
  Where both steps insert, that is, where the original text contained neither the
  helper symbol together with its module reference nor the logic marker, a
  successful \<^verbatim>\<open>apply\<close> leaves a file on which detection reports no problem.
\<close>

lemma apply_success_after_insertion:
  assumes "targetFile r = Some f" and "hasProblem r"
    and "apply_patch join dir now s r noBackup = (out, s')" and "success out"
    and "readFileSync s f = Inr content" and "truthy installPath"
    and "\<not> (includes_js content (asc ''sendMediaFeishu'')
            \<and> includes_js content (asc ''./media.js''))"
    and "\<not> includes_js content (asc ''payload.mediaUrls?.length'')"
  shows "\<not> hasProblem (check s' installPath version (Some f))"
proof -
  from apply_patch_success[OF assms(3,4)] assms(1,5) obtain s1
    where f: "f \<noteq> []" and re: "read_error s1 f = None"
      and pw: "patchAndWrite s1 f content = Inr s'" by auto
  from patchAndWrite_Inr[OF pw] obtain c1 c2 where a1: "addImport content = Inr c1"
    and a2: "addMediaLogic c1 = Inr c2" and v: "verify c2"
    and w: "writeFileSync s1 f c2 = Inr s'" by blast
  from w re have rd: "readFileSync s' f = Inr c2"
    by (auto simp: writeFileSync_def readFileSync_def split: option.splits)
  show ?thesis
    using both_steps_give_markers[OF a1 a2 assms(7,8)] rd f assms(6)
    by (simp add: check_def Let_def)
qed

lemma apply_success_after_insertion_text_host:
  "success (fst (apply_patch join_simple (asc ''/b'') (asc ''2026-02-10T12:34:56.789Z'')
        (fs_one (asc ''/t.ts'') text_host) (report_of text_host) False))
   \<and> \<not> hasProblem (check (snd (apply_patch join_simple (asc ''/b'')
          (asc ''2026-02-10T12:34:56.789Z'') (fs_one (asc ''/t.ts'') text_host)
          (report_of text_host) False)) (Some (asc ''/oc'')) None (Some (asc ''/t.ts'')))"
proof -
  have ok: "success (fst (apply_patch join_simple (asc ''/b'') (asc ''2026-02-10T12:34:56.789Z'')
        (fs_one (asc ''/t.ts'') text_host) (report_of text_host) False))"
    by (simp add: apply_patch_text_host)
  have tr: "truthy (Some (asc ''/oc''))" by (simp add: truthy_def asc_def)
  note rd = fs_one_simps(2)[of "asc ''/t.ts''" text_host]
  from apply_success_after_insertion[OF report_of_text_host prod.collapse[symmetric] ok rd tr
      text_host_unpatched, of None] ok
  show ?thesis by simp
qed

section \<open>Claim C2: atomicity of apply\<close>




section \<open>Claim C3: the problem flag\<close>

text \<open>
  Claim C3. When the installation and the target file are resolved and the file
  is readable, the report's problem flag is false if and only if the text matches
  all three marker patterns (import, logic, call); any marker absent makes it
  true. The findings are, in this order, one for a missing import, one for a
  missing logic block, and the warning for a missing call when the logic block is
  present.
\<close>

theorem detector_problem_iff_markers:
  assumes "truthy installPath" and "target = Some file" and "file \<noteq> []"
    and "readFileSync s file = Inr content"
  shows "(\<not> hasProblem (check s installPath version target) \<longleftrightarrow>
            test MEDIA_IMPORT_PATTERN content \<and> test MEDIA_LOGIC_PATTERN content
            \<and> test SEND_MEDIA_CALL_PATTERN content)
         \<and> issues (check s installPath version target)
             = (if test MEDIA_IMPORT_PATTERN content then [] else [issue_missing_import file])
               @ (if test MEDIA_LOGIC_PATTERN content then [] else [issue_missing_logic file])
               @ (if \<not> test SEND_MEDIA_CALL_PATTERN content \<and> test MEDIA_LOGIC_PATTERN content
                  then [issue_missing_call file] else [])"
  using assms by (auto simp: check_def Let_def)

theorem detector_problem_iff_markers_witness:
  "truthy (Some (asc ''/oc'')) \<and> asc ''/t.ts'' \<noteq> []
   \<and> readFileSync (fs_one (asc ''/t.ts'') text_patched) (asc ''/t.ts'') = Inr text_patched
   \<and> test MEDIA_IMPORT_PATTERN text_patched \<and> test MEDIA_LOGIC_PATTERN text_patched
   \<and> test SEND_MEDIA_CALL_PATTERN text_patched
   \<and> \<not> hasProblem (check (fs_one (asc ''/t.ts'') text_patched) (Some (asc ''/oc'')) None
                       (Some (asc ''/t.ts'')))
   \<and> issues (check (fs_one (asc ''/t.ts'') text_patched) (Some (asc ''/oc'')) None
               (Some (asc ''/t.ts''))) = []"
proof -
  have h1: "truthy (Some (asc ''/oc''))" by (simp add: truthy_def asc_def)
  have h3: "asc ''/t.ts'' \<noteq> []" by (simp add: asc_def)
  have h4: "readFileSync (fs_one (asc ''/t.ts'') text_patched) (asc ''/t.ts'') = Inr text_patched"
    by (simp add: readFileSync_def fs_one_def)
  from detector_problem_iff_markers[OF h1 refl h3 h4, of None] test_patched h1 h3 h4
  show ?thesis by simp
qed

section \<open>Claim C4: the import step without an insertion point\<close>

text \<open>
  Claim C4. When the sibling-import anchor does not match and the text contains
  no import statement at all, the import step fails with PATCH_FAILED ("cannot
  find a suitable place to add the import statement") and inserts nothing. The
  code does not keep this on the two lines \<^verbatim>\<open>foo\<close> and \<^verbatim>\<open>bar\<close>: the text holds no
  import, \<^verbatim>\<open>lastIndexOf('import ')\<close> answers \<open>-1\<close> and that answer is never tested;
  \<^verbatim>\<open>indexOf('\n', -1)\<close> searches from index 0 and finds the end of the first line,
  and the step returns the text with the import line inserted after it.
\<close>

theorem addImport_after_first_line:
  "\<not> (includes_js text_two_lines (asc ''sendMediaFeishu'')
       \<and> includes_js text_two_lines (asc ''./media.js''))
   \<and> \<not> test importAnchor text_two_lines
   \<and> \<not> includes_js text_two_lines (asc ''import'')
   \<and> lastIndexOf text_two_lines (asc ''import '') = - 1
   \<and> addImport text_two_lines = Inr (asc ''foo\<newline>'' @ MEDIA_IMPORT @ asc ''\<newline>bar'')
   \<and> addImport text_two_lines \<noteq> Inl (FixerException PATCH_FAILED msg_no_import_place)"
  by (simp add: text_two_lines_def addImport_def importAnchor_def rx_defs MEDIA_IMPORT_def
      lastIndexOf_def indexOf_def slice_def sliceFrom_def relIndex_def)

text \<open>
  The step raises exactly when it is not skipped, the anchor does not match and
  no line break follows the position that \<^verbatim>\<open>lastIndexOf\<close> answers; in particular on
  a text without any line break.
\<close>

lemma addImport_no_line_break:
  assumes "\<not> (includes_js t (asc ''sendMediaFeishu'') \<and> includes_js t (asc ''./media.js''))"
    and "\<not> test importAnchor t"
    and "\<not> includes_js t (asc ''\<newline>'')"
  shows "addImport t = Inl (FixerException PATCH_FAILED msg_no_import_place)"
  using assms by (auto simp: addImport_def Let_def indexOf_absent)

lemma addImport_text_plain:
  "addImport text_plain = Inl (FixerException PATCH_FAILED msg_no_import_place)"
  by (rule addImport_no_line_break) (simp_all add: text_plain_def importAnchor_def rx_defs)

section \<open>Claim C5: the preconditions of apply\<close>

text \<open>
  Claim C5. \<^verbatim>\<open>Patcher.apply\<close> checks its four preconditions in order, each with its
  own early exit that leaves the file system untouched: no target file in the
  report gives FILE_NOT_FOUND, whatever the other fields; a report without a
  problem gives ALREADY_FIXED; a target path that does not exist gives
  FILE_NOT_FOUND with a different message; an unreadable file gives
  PERMISSION_DENIED.
\<close>

theorem apply_preconditions_in_order:
  "(\<not> truthy (targetFile r) \<longrightarrow>
      apply_patch join backupDir now s r noBackup
        = (failure FILE_NOT_FOUND msg_no_target msg_no_target None None, s))
   \<and> (truthy (targetFile r) \<and> \<not> hasProblem r \<longrightarrow>
      apply_patch join backupDir now s r noBackup
        = (failure ALREADY_FIXED msg_already_fixed_long msg_already_fixed None None, s))
   \<and> (targetFile r = Some file \<and> file \<noteq> [] \<and> hasProblem r \<and> \<not> existsSync s file \<longrightarrow>
      apply_patch join backupDir now s r noBackup
        = (failure FILE_NOT_FOUND (msg_target_missing @ file) (msg_target_missing @ file)
             None None, s))
   \<and> (targetFile r = Some file \<and> file \<noteq> [] \<and> hasProblem r \<and> existsSync s file
        \<and> readFileSync s file = Inl e \<longrightarrow>
      apply_patch join backupDir now s r noBackup
        = (failure PERMISSION_DENIED (msg_cannot_read @ errorMessage e)
             (msg_cannot_read @ errorMessage e) (Some e) None, s))
   \<and> msg_no_target \<noteq> msg_target_missing @ file"
  by (auto simp: apply_patch_def truthy_def msg_no_target_def msg_target_missing_def)

theorem apply_preconditions_in_order_witness:
  "map err_code (errors (fst (apply_patch join_simple (asc ''/b'') (asc ''2026-02-10T12:34:56.789Z'')
      (fs_one (asc ''/t.ts'') text_no_call) report_openclaw_not_found False))) = [FILE_NOT_FOUND]
   \<and> map err_code (errors (fst (apply_patch join_simple (asc ''/b'') (asc ''2026-02-10T12:34:56.789Z'')
      (fs_one (asc ''/t.ts'') text_patched) (report_of text_patched) False))) = [ALREADY_FIXED]
   \<and> map err_code (errors (fst (apply_patch join_simple (asc ''/b'') (asc ''2026-02-10T12:34:56.789Z'')
      fs_empty (report_of text_no_call) False))) = [FILE_NOT_FOUND]
   \<and> map err_code (errors (fst (apply_patch join_simple (asc ''/b'') (asc ''2026-02-10T12:34:56.789Z'')
      (fs_unreadable (asc ''/t.ts'') text_no_call) (report_of text_no_call) False)))
       = [PERMISSION_DENIED]"
proof -
  have a: "\<not> truthy (targetFile report_openclaw_not_found)"
    by (simp add: report_openclaw_not_found_def truthy_def)
  have b: "truthy (targetFile (report_of text_patched)) \<and> \<not> hasProblem (report_of text_patched)"
    using test_patched by (simp add: report_of_simps truthy_def asc_def)
  have c: "targetFile (report_of text_no_call) = Some (asc ''/t.ts'') \<and> asc ''/t.ts'' \<noteq> []
           \<and> hasProblem (report_of text_no_call) \<and> \<not> existsSync fs_empty (asc ''/t.ts'')"
    using test_no_call by (simp add: report_of_simps asc_def existsSync_def fs_empty_def)
  have d: "targetFile (report_of text_no_call) = Some (asc ''/t.ts'') \<and> asc ''/t.ts'' \<noteq> []
           \<and> hasProblem (report_of text_no_call)
           \<and> existsSync (fs_unreadable (asc ''/t.ts'') text_no_call) (asc ''/t.ts'')
           \<and> readFileSync (fs_unreadable (asc ''/t.ts'') text_no_call) (asc ''/t.ts'')
               = Inl (SystemError (asc ''EACCES: permission denied''))"
    using test_no_call
    by (simp add: report_of_simps asc_def existsSync_def readFileSync_def fs_unreadable_def)
  show ?thesis
    using a b c d
      apply_preconditions_in_order[of report_openclaw_not_found join_simple "asc ''/b''"
        "asc ''2026-02-10T12:34:56.789Z''" "fs_one (asc ''/t.ts'') text_no_call" False]
      apply_preconditions_in_order[of "report_of text_patched" join_simple "asc ''/b''"
        "asc ''2026-02-10T12:34:56.789Z''" "fs_one (asc ''/t.ts'') text_patched" False]
      apply_preconditions_in_order[of "report_of text_no_call" join_simple "asc ''/b''"
        "asc ''2026-02-10T12:34:56.789Z''" fs_empty False "asc ''/t.ts''"]
      apply_preconditions_in_order[of "report_of text_no_call" join_simple "asc ''/b''"
        "asc ''2026-02-10T12:34:56.789Z''" "fs_unreadable (asc ''/t.ts'') text_no_call" False
        "asc ''/t.ts''" "SystemError (asc ''EACCES: permission denied'')"]
    by (simp add: failure_def)
qed

section \<open>Claim C6: the missing-call warning\<close>

text \<open>
  Claim C6. When the logic marker matches and the call marker does not, the
  detector emits the warning finding for the missing call, after the finding for
  a missing import if there is one; when the logic marker is absent it emits no
  missing-call finding and no warning at all, whatever the call marker.
\<close>

theorem missing_call_warning:
  assumes "truthy installPath" and "target = Some file" and "file \<noteq> []"
    and "readFileSync s file = Inr content"
  shows "(test MEDIA_LOGIC_PATTERN content \<and> \<not> test SEND_MEDIA_CALL_PATTERN content \<longrightarrow>
            issues (check s installPath version target)
              = (if test MEDIA_IMPORT_PATTERN content then [] else [issue_missing_import file])
                @ [issue_missing_call file]
            \<and> issue_type (issue_missing_call file) = warning_issue)
         \<and> (\<not> test MEDIA_LOGIC_PATTERN content \<longrightarrow>
               issue_missing_call file \<notin> set (issues (check s installPath version target))
               \<and> (\<forall>i \<in> set (issues (check s installPath version target)).
                     issue_type i \<noteq> warning_issue))"
  using assms
  by (auto simp: check_def Let_def issue_missing_call_def issue_missing_import_def
      issue_missing_logic_def)

theorem missing_call_warning_witness:
  "truthy (Some (asc ''/oc'')) \<and> asc ''/t.ts'' \<noteq> []
   \<and> readFileSync (fs_one (asc ''/t.ts'') text_no_call) (asc ''/t.ts'') = Inr text_no_call
   \<and> test MEDIA_LOGIC_PATTERN text_no_call \<and> \<not> test SEND_MEDIA_CALL_PATTERN text_no_call
   \<and> issues (check (fs_one (asc ''/t.ts'') text_no_call) (Some (asc ''/oc'')) None
               (Some (asc ''/t.ts'')))
       = [issue_missing_import (asc ''/t.ts''), issue_missing_call (asc ''/t.ts'')]
   \<and> issue_type (issue_missing_call (asc ''/t.ts'')) = warning_issue"
proof -
  have h1: "truthy (Some (asc ''/oc''))" by (simp add: truthy_def asc_def)
  have h3: "asc ''/t.ts'' \<noteq> []" by (simp add: asc_def)
  have h4: "readFileSync (fs_one (asc ''/t.ts'') text_no_call) (asc ''/t.ts'') = Inr text_no_call"
    by (simp add: readFileSync_def fs_one_def)
  from missing_call_warning[OF h1 refl h3 h4, of None] test_no_call h1 h3 h4
  show ?thesis by simp
qed

section \<open>Claim C7: idempotence of the insertion steps\<close>

text \<open>
  Claim C7. A text that contains the helper symbol and its module reference
  passes the import step unchanged; a text that contains the logic marker passes
  the logic step unchanged; and when both steps succeed on a text, applying both
  to their output changes nothing.
\<close>

theorem insertion_steps_idempotent:
  "(includes_js t (asc ''sendMediaFeishu'') \<and> includes_js t (asc ''./media.js'')
      \<longrightarrow> addImport t = Inr t)
   \<and> (includes_js t (asc ''payload.mediaUrls?.length'') \<longrightarrow> addMediaLogic t = Inr t)
   \<and> (addImport t = Inr t1 \<and> addMediaLogic t1 = Inr t2
      \<longrightarrow> addImport t2 = Inr t2 \<and> addMediaLogic t2 = Inr t2)"
proof (intro conjI impI)
  assume "includes_js t (asc ''sendMediaFeishu'') \<and> includes_js t (asc ''./media.js'')"
  then show "addImport t = Inr t" by (simp add: addImport_def)
next
  assume "includes_js t (asc ''payload.mediaUrls?.length'')"
  then show "addMediaLogic t = Inr t" by (simp add: addMediaLogic_def)
next
  assume a: "addImport t = Inr t1 \<and> addMediaLogic t1 = Inr t2"
  then have "includes_js t1 (asc ''sendMediaFeishu'')" "includes_js t1 (asc ''./media.js'')"
    using addImport_includes by blast+
  with a have "includes_js t2 (asc ''sendMediaFeishu'') \<and> includes_js t2 (asc ''./media.js'')
         \<and> includes_js t2 (asc ''payload.mediaUrls?.length'')"
    using addMediaLogic_includes by blast
  then show "addImport t2 = Inr t2" "addMediaLogic t2 = Inr t2"
    by (simp_all add: addImport_def addMediaLogic_def)
qed

theorem insertion_steps_idempotent_witness:
  "addImport text_host = Inr text_host_imported
   \<and> addMediaLogic text_host_imported = Inr text_host_patched
   \<and> addImport text_host_patched = Inr text_host_patched
   \<and> addMediaLogic text_host_patched = Inr text_host_patched"
  using insertion_steps_idempotent[of text_host text_host_imported text_host_patched]
    addImport_text_host addMediaLogic_text_host
  by (simp add: text_host_imported_def text_host_patched_def)

section \<open>Claim C8: the backup round trip\<close>

text \<open>
  Claim C8, amended. For every existing path \<open>p\<close>, both operations are exact
  copies or raise PERMISSION_DENIED. \<^verbatim>\<open>create\<close> changes no file but the backup,
  which receives the content of \<open>p\<close>. \<^verbatim>\<open>restore\<close> of that backup onto \<open>p\<close>, in
  any later state in which the backup is untouched, whatever was written to \<open>p\<close>
  in between, changes no file but \<open>p\<close>, which receives the content it had when
  \<^verbatim>\<open>create\<close> was called. When the file system refuses neither reading nor writing
  \<open>p\<close> and the backup path, \<^verbatim>\<open>create\<close> succeeds, and so does \<^verbatim>\<open>restore\<close> in every
  later state with the backup untouched and the same permissions.
\<close>

theorem backup_round_trip:
  assumes "existsSync s p"
  shows "(case create join dir now s p of
            Inl e \<Rightarrow> \<exists>m. e = FixerException PERMISSION_DENIED m
          | Inr (b, s1) \<Rightarrow>
              files s1 = (files s)(b := files s p)
              \<and> (\<forall>s'. files s' b = files s1 b \<longrightarrow>
                    (case restore s' b p of
                       Inl e \<Rightarrow> \<exists>m. e = FixerException PERMISSION_DENIED m
                     | Inr s2 \<Rightarrow> files s2 = (files s')(p := files s p))))
         \<and> (read_error s p = None \<and> write_error s p = None
              \<and> read_error s (join dir (backupFileName now p)) = None
              \<and> write_error s (join dir (backupFileName now p)) = None
            \<longrightarrow> (\<exists>b s1. create join dir now s p = Inr (b, s1)
                   \<and> (\<forall>s'. files s' b = files s1 b \<and> read_error s' = read_error s
                            \<and> write_error s' = write_error s
                        \<longrightarrow> (\<exists>s2. restore s' b p = Inr s2 \<and> files s2 p = files s p))))"
proof (rule conjI)
  show "case create join dir now s p of
            Inl e \<Rightarrow> \<exists>m. e = FixerException PERMISSION_DENIED m
          | Inr (b, s1) \<Rightarrow>
              files s1 = (files s)(b := files s p)
              \<and> (\<forall>s'. files s' b = files s1 b \<longrightarrow>
                    (case restore s' b p of
                       Inl e \<Rightarrow> \<exists>m. e = FixerException PERMISSION_DENIED m
                     | Inr s2 \<Rightarrow> files s2 = (files s')(p := files s p)))"
  proof (cases "create join dir now s p")
    case (Inl e)
    then show ?thesis using create_Inl[OF Inl assms] by simp
  next
    case (Inr r)
    obtain b s1 where r: "r = (b, s1)" by (cases r)
    note c = Inr[unfolded r]
    from create_Inr[OF c] obtain d where d: "files s p = Some d"
      and s1: "s1 = s\<lparr>files := (files s)(b \<mapsto> d)\<rparr>" by blast
    have f1: "files s1 = (files s)(b := files s p)" using d s1 by simp
    have "case restore s' b p of
            Inl e \<Rightarrow> \<exists>m. e = FixerException PERMISSION_DENIED m
          | Inr s2 \<Rightarrow> files s2 = (files s')(p := files s p)"
      if h: "files s' b = files s1 b" for s'
    proof (cases "restore s' b p")
      case (Inl e)
      have "existsSync s' b" using h f1 d by (simp add: existsSync_def)
      from restore_Inl[OF Inl this] Inl show ?thesis by simp
    next
      case (Inr s2)
      from restore_Inr[OF Inr] obtain d' where "files s' b = Some d'"
        "s2 = s'\<lparr>files := (files s')(p \<mapsto> d')\<rparr>" by blast
      with h f1 d Inr show ?thesis by simp
    qed
    with c f1 show ?thesis by simp
  qed
next
  show "read_error s p = None \<and> write_error s p = None
              \<and> read_error s (join dir (backupFileName now p)) = None
              \<and> write_error s (join dir (backupFileName now p)) = None
            \<longrightarrow> (\<exists>b s1. create join dir now s p = Inr (b, s1)
                   \<and> (\<forall>s'. files s' b = files s1 b \<and> read_error s' = read_error s
                            \<and> write_error s' = write_error s
                        \<longrightarrow> (\<exists>s2. restore s' b p = Inr s2 \<and> files s2 p = files s p)))"
  proof (rule impI)
    assume ok: "read_error s p = None \<and> write_error s p = None
              \<and> read_error s (join dir (backupFileName now p)) = None
              \<and> write_error s (join dir (backupFileName now p)) = None"
    from assms obtain d where d: "files s p = Some d" by (auto simp: existsSync_def)
    define b where "b = join dir (backupFileName now p)"
    define s1 where "s1 = s\<lparr>files := (files s)(b \<mapsto> d)\<rparr>"
    have c: "create join dir now s p = Inr (b, s1)"
      using assms ok d
      by (simp add: create_def copyFileSync_def readFileSync_def writeFileSync_def b_def s1_def
          Let_def)
    have "\<exists>s2. restore s' b p = Inr s2 \<and> files s2 p = files s p"
      if h: "files s' b = files s1 b \<and> read_error s' = read_error s
             \<and> write_error s' = write_error s" for s'
      using h ok d
      by (simp add: restore_def existsSync_def copyFileSync_def readFileSync_def writeFileSync_def
          s1_def b_def)
    with c show "\<exists>b s1. create join dir now s p = Inr (b, s1)
                   \<and> (\<forall>s'. files s' b = files s1 b \<and> read_error s' = read_error s
                            \<and> write_error s' = write_error s
                        \<longrightarrow> (\<exists>s2. restore s' b p = Inr s2 \<and> files s2 p = files s p))"
      by blast
  qed
qed

theorem backup_round_trip_witness:
  "existsSync (fs_one (asc ''/t.ts'') text_plain) (asc ''/t.ts'')
   \<and> text_comment \<noteq> text_plain
   \<and> (\<exists>b s1 s' s2.
         create join_simple (asc ''/b'') (asc ''2026-02-10T12:34:56.789Z'')
           (fs_one (asc ''/t.ts'') text_plain) (asc ''/t.ts'') = Inr (b, s1)
         \<and> files s1 b = Some text_plain
         \<and> writeFileSync s1 (asc ''/t.ts'') text_comment = Inr s'
         \<and> files s' (asc ''/t.ts'') = Some text_comment
         \<and> restore s' b (asc ''/t.ts'') = Inr s2
         \<and> files s2 (asc ''/t.ts'') = Some text_plain
         \<and> files s2 b = Some text_plain)"
proof -
  let ?f = "asc ''/t.ts''"
  let ?s = "fs_one ?f text_plain"
  have e: "existsSync ?s ?f" by (simp add: existsSync_def fs_one_def)
  have f: "files ?s ?f = Some text_plain" by (simp add: fs_one_def)
  have ok: "read_error ?s q = None" "write_error ?s q = None" for q
    by (simp_all add: fs_one_def)
  have ne: "text_comment \<noteq> text_plain" by (simp add: text_comment_def text_plain_def asc_def)
  from backup_round_trip[OF e, of join_simple "asc ''/b''" "asc ''2026-02-10T12:34:56.789Z''"] ok
  obtain b s1 where c: "create join_simple (asc ''/b'') (asc ''2026-02-10T12:34:56.789Z'') ?s ?f
       = Inr (b, s1)"
    and fs1: "files s1 = (files ?s)(b := files ?s ?f)"
    and r: "\<And>s'. files s' b = files s1 b \<Longrightarrow> read_error s' = read_error ?s
             \<Longrightarrow> write_error s' = write_error ?s
             \<Longrightarrow> \<exists>s2. restore s' b ?f = Inr s2 \<and> files s2 ?f = files ?s ?f"
    and r2: "\<And>s'. files s' b = files s1 b \<Longrightarrow>
                (case restore s' b ?f of
                       Inl e \<Rightarrow> \<exists>m. e = FixerException PERMISSION_DENIED m
                     | Inr s2 \<Rightarrow> files s2 = (files s')(?f := files ?s ?f))"
    by auto
  from c have bb: "b = asc ''/b/t.ts.backup-2026-02-10T12-34-56-789Z''"
    and s1: "s1 = \<lparr>files = [?f \<mapsto> text_plain, asc ''/b/t.ts.backup-2026-02-10T12-34-56-789Z'' \<mapsto> text_plain],
           read_error = Map.empty, write_error = Map.empty\<rparr>"
    by (auto simp: create_fs_one)
  have bf: "b \<noteq> ?f" by (simp add: bb asc_def)
  define s' where "s' = s1\<lparr>files := (files s1)(?f \<mapsto> text_comment)\<rparr>"
  have w: "writeFileSync s1 ?f text_comment = Inr s'"
    by (simp add: writeFileSync_def s1 s'_def)
  have k: "files s' b = files s1 b" "read_error s' = read_error ?s" "write_error s' = write_error ?s"
    using bf by (simp_all add: s'_def s1 fs_one_def)
  from r[OF k] obtain s2 where rs: "restore s' b ?f = Inr s2" and f2: "files s2 ?f = Some text_plain"
    using f by auto
  from r2[OF k(1)] rs have "files s2 = (files s')(?f := files ?s ?f)" by simp
  then have f3: "files s2 b = Some text_plain" using bf k(1) fs1 f by simp
  have f4: "files s1 b = Some text_plain" using fs1 f by simp
  have f5: "files s' ?f = Some text_comment" by (simp add: s'_def)
  from e ne c f4 w f5 rs f2 f3 show ?thesis by blast
qed

text \<open>
  An existing file that the file system refuses to read: \<^verbatim>\<open>create\<close> raises
  PERMISSION_DENIED, so the round trip of the claim C8 does not succeed for every
  existing path.
\<close>

theorem create_refused_counterexample:
  "existsSync (fs_unreadable (asc ''/t.ts'') (asc ''x'')) (asc ''/t.ts'')
   \<and> create join_simple (asc ''/b'') (asc ''2026-02-10T12:34:56.789Z'')
        (fs_unreadable (asc ''/t.ts'') (asc ''x'')) (asc ''/t.ts'')
      = Inl (FixerException PERMISSION_DENIED
               (msg_backup_create @ asc ''EACCES: permission denied''))"
  by (simp add: create_def existsSync_def copyFileSync_def readFileSync_def fs_unreadable_def)

section \<open>Claim C9: the creation time of a listed backup\<close>

text \<open>
  Claim C9. For the backup of \<^verbatim>\<open>reply-dispatcher.ts\<close> created at
  \<^verbatim>\<open>2026-02-10T12:34:56.789Z\<close>, \<^verbatim>\<open>list\<close> hands the runtime's date parser the string
  \<^verbatim>\<open>2026:02:10T12:34:56:789Z\<close>: every dash of the embedded timestamp has become a
  colon, those of the date included, and no dot is restored. That string is not
  in the date time string format, while the instant \<^verbatim>\<open>create\<close> embedded is; the
  creation time is the parser's answer on it, or the birth time of the file when
  the parser rejects it.
\<close>

theorem list_createdAt_of_created_name:
  "list_backups join dateParse dir
     (Some [(backupFileName (asc ''2026-02-10T12:34:56.789Z'') (asc ''/oc/reply-dispatcher.ts''),
             Some (birthtime, sz))]) None
   = [\<lparr>path = join dir (asc ''reply-dispatcher.ts.backup-2026-02-10T12-34-56-789Z''),
        originalPath = join (asc ''.'') (asc ''reply-dispatcher.ts''),
        createdAt = (case dateParse (asc ''2026:02:10T12:34:56:789Z'') of
                       Some parsed \<Rightarrow> parsed | None \<Rightarrow> birthtime),
        size = sz\<rparr>]
   \<and> isISOString (asc ''2026-02-10T12:34:56.789Z'')
   \<and> \<not> isISOString (asc ''2026:02:10T12:34:56:789Z'')"
  by (simp add: list_backups_def backupFileName_def basename_def replaceEach_def asc_def
      resolveCreatedAt_def isLineTerminator_def truthy_def isISOString_def isDigit_def)

text \<open>
  No file name makes \<^verbatim>\<open>list\<close> hand the parser a string in the date time string
  format, since the string it builds holds no dash: with a parser that accepts
  that format only, the creation time of every listed backup is the birth time of
  its file.
\<close>

lemma replaceEach_no_dash: "45 \<notin> set (replaceEach t (asc ''-'') (asc '':''))"
  by (induction t) (auto simp: replaceEach_def asc_def)

lemma fitsFormat_length: "fitsFormat fmt s \<Longrightarrow> length s = length fmt"
  by (induction fmt s rule: fitsFormat.induct) auto

lemma fitsFormat_nth:
  "fitsFormat fmt s \<Longrightarrow> i < length fmt \<Longrightarrow> fmt ! i \<noteq> 100 \<Longrightarrow> s ! i = fmt ! i"
proof (induction fmt s arbitrary: i rule: fitsFormat.induct)
  case (2 f fs c cs)
  then show ?case by (cases i) (auto split: if_splits)
qed auto

lemma isISOString_dash: "isISOString s \<Longrightarrow> 45 \<in> set s"
proof -
  assume iso: "isISOString s"
  then have f: "fitsFormat (asc ''dddd-dd-ddTdd:dd:dd.dddZ'') s" by (simp add: isISOString_def)
  from fitsFormat_length[OF f] have l: "length s = 24" by (simp add: asc_def)
  from fitsFormat_nth[OF f, of 4] have "s ! 4 = 45" by (simp add: asc_def)
  with l show ?thesis by (metis nth_mem numeral_less_iff semiring_norm(76,78,79,81))
qed

lemma strict_parser_falls_back:
  assumes "\<And>v. \<not> isISOString v \<Longrightarrow> dateParse v = None"
  shows "resolveCreatedAt dateParse birthtime file = birthtime"
proof (cases "timestampMatch file")
  case None
  then show ?thesis by (simp add: resolveCreatedAt_def)
next
  case (Some t)
  let ?v = "replaceEach (replaceEach t (asc ''-'') (asc '':'')) (asc ''-'') (asc ''.'')"
  have "replaceEach u (asc ''-'') r = u" if "45 \<notin> set u" for u r
    using that by (induction u) (auto simp: replaceEach_def asc_def)
  then have "?v = replaceEach t (asc ''-'') (asc '':'')" using replaceEach_no_dash by blast
  then have "45 \<notin> set ?v" using replaceEach_no_dash by simp
  then have "\<not> isISOString ?v" using isISOString_dash by blast
  from assms[OF this] Some show ?thesis by (simp add: resolveCreatedAt_def)
qed

section \<open>Claim C10: a hand-edited partial patch\<close>




end
